theory Spec2Isabelle
  imports Main "HOL-Library.Finite_Map" "HOL-Library.Char_ord" "HOL-Library.List_Lexorder"
begin

section \<open>The profile store of buteo-syncfw\<close>

text \<open>
  A shallow embedding of \<^verbatim>\<open>src/libsyncprofile/ProfileManager.cpp\<close>. The functions of
  \<^verbatim>\<open>ProfileManager\<close> and \<^verbatim>\<open>ProfileManagerPrivate\<close> read and change files; the embedding
  passes the file system explicitly and returns it, changed, next to the C++ return value.
\<close>

subsection \<open>Files and the Qt file primitives\<close>

text \<open>
  An XML element as \<^verbatim>\<open>QDomElement\<close> shows it: a tag, the attributes in document order and
  the child elements in document order.
\<close>

datatype element =
  Element (tag: string) (attrs: "(string \<times> string) list") (children: "element list")

text \<open>
  What a file holds is either a well-formed XML document, given by its root element
  (\<^verbatim>\<open>QDomDocument::setContent\<close> succeeds and \<^verbatim>\<open>documentElement()\<close> is that element), or
  bytes that do not parse.
\<close>

datatype content = Xml element | Malformed string

text \<open>
  A file has its content and two permission bits: \<^verbatim>\<open>open(ReadOnly)\<close> fails on a file that
  is not readable, \<^verbatim>\<open>open(WriteOnly | Truncate)\<close> fails on an existing file that is not
  writable. Directories are not modelled: the file system is a finite map from the full
  path to the file, and \<^verbatim>\<open>QDir::mkpath\<close> has nothing to do.
\<close>

record fileinfo =
  body :: content
  readable :: bool
  writable :: bool

type_synonym path = string

type_synonym filesystem = "(path, fileinfo) fmap"

text \<open>\<^verbatim>\<open>QFile::exists(path)\<close>.\<close>

definition QFile_exists :: "filesystem \<Rightarrow> path \<Rightarrow> bool" where
  "QFile_exists fs p = (fmlookup fs p \<noteq> None)"

text \<open>
  \<^verbatim>\<open>QFile::remove(path)\<close>: false when there is no such file. A removal that the directory's
  permissions refuse is not modelled.
\<close>

definition QFile_remove :: "filesystem \<Rightarrow> path \<Rightarrow> bool \<times> filesystem" where
  "QFile_remove fs p = (if QFile_exists fs p then (True, fmdrop p fs) else (False, fs))"

text \<open>
  \<^verbatim>\<open>QFile::copy(from, to)\<close>: the source must exist and be readable, and an existing
  destination is never overwritten; the copy carries the source's permissions.
\<close>

definition QFile_copy :: "filesystem \<Rightarrow> path \<Rightarrow> path \<Rightarrow> bool \<times> filesystem" where
  "QFile_copy fs src dst =
     (case fmlookup fs src of
        None \<Rightarrow> (False, fs)
      | Some f \<Rightarrow>
          if \<not> readable f \<or> QFile_exists fs dst then (False, fs)
          else (True, fmupd dst f fs))"

text \<open>
  \<^verbatim>\<open>QFile::rename(from, to)\<close>: the source must exist, and an existing destination is never
  overwritten. With no directories in the model, a rename into a directory that does not
  exist succeeds here where Qt refuses it; the stores below on which a rename is evaluated
  hold a file in every directory involved.
\<close>

definition QFile_rename :: "filesystem \<Rightarrow> path \<Rightarrow> path \<Rightarrow> bool \<times> filesystem" where
  "QFile_rename fs src dst =
     (case fmlookup fs src of
        None \<Rightarrow> (False, fs)
      | Some f \<Rightarrow>
          if QFile_exists fs dst then (False, fs)
          else (True, fmupd dst f (fmdrop src fs)))"

text \<open>
  \<^verbatim>\<open>QFile::open(ReadOnly)\<close> followed by reading everything: \<open>None\<close> when the open fails.
\<close>

definition open_ReadOnly :: "filesystem \<Rightarrow> path \<Rightarrow> content option" where
  "open_ReadOnly fs p =
     (case fmlookup fs p of
        None \<Rightarrow> None
      | Some f \<Rightarrow> if readable f then Some (body f) else None)"

text \<open>
  \<^verbatim>\<open>QFile::open(WriteOnly | Truncate)\<close>, writing the text and closing: a missing file is
  created, an existing writable file gets the new content, an existing file that is not
  writable makes the open fail and stays as it is.
\<close>

definition open_WriteOnly_Truncate :: "filesystem \<Rightarrow> path \<Rightarrow> content \<Rightarrow> bool \<times> filesystem" where
  "open_WriteOnly_Truncate fs p c =
     (case fmlookup fs p of
        None \<Rightarrow> (True, fmupd p \<lparr>body = c, readable = True, writable = True\<rparr> fs)
      | Some f \<Rightarrow>
          if writable f then (True, fmupd p (f\<lparr>body := c\<rparr>) fs)
          else (False, fs))"

subsection \<open>Profiles\<close>

text \<open>
  Modelled from the spec: the class \<^verbatim>\<open>Profile\<close> (\<^verbatim>\<open>Profile.h\<close>, \<^verbatim>\<open>Profile.cpp\<close>) is not
  among the sources. The spec's data model gives a profile a name, a type, the keys (a
  mapping from key to value in which an absent key differs from a key with the empty
  value), the fields, the ordered sub-profiles and the flag \<open>loaded\<close>. A field's value is
  kept as the attributes of its XML element.
\<close>

datatype profile =
  Profile (name: string) (ptype: string)
    (keys: "string \<Rightarrow> string option")
    (pfields: "string \<Rightarrow> (string \<times> string) list option")
    (subProfiles: "profile list") (isLoaded: bool)

definition setLoaded :: "profile \<Rightarrow> bool \<Rightarrow> profile" where
  "setLoaded p b = Profile (name p) (ptype p) (keys p) (pfields p) (subProfiles p) b"

definition setSubProfiles :: "profile \<Rightarrow> profile list \<Rightarrow> profile" where
  "setSubProfiles p ss = Profile (name p) (ptype p) (keys p) (pfields p) ss (isLoaded p)"

text \<open>
  Modelled from the spec: \<^verbatim>\<open>Profile::key(name)\<close> returns the value of the key, and the null
  \<^verbatim>\<open>QString\<close> (here \<open>None\<close>) when the profile has no such key.
\<close>

definition key :: "profile \<Rightarrow> string \<Rightarrow> string option" where
  "key p k = keys p k"

text \<open>
  Modelled from the spec: the flag \<open>protected\<close> is derived from the reserved key
  \<^verbatim>\<open>protected\<close>, and boolean values are the literal strings \<^verbatim>\<open>true\<close> and \<^verbatim>\<open>false\<close>.
\<close>

definition KEY_PROTECTED :: string where
  "KEY_PROTECTED = ''protected''"

definition BOOLEAN_TRUE :: string where
  "BOOLEAN_TRUE = ''true''"

definition isProtected :: "profile \<Rightarrow> bool" where
  "isProtected p = (key p KEY_PROTECTED = Some BOOLEAN_TRUE)"

text \<open>
  Modelled from the spec: \<^verbatim>\<open>ProfileFactory::createProfile\<close> is not among the sources. The
  spec's XML dialect has a root element \<^verbatim>\<open><profile name=".." type="..">\<close> with children
  \<^verbatim>\<open><key name=".." value=".."/>\<close>, \<^verbatim>\<open><field .../>\<close> and nested \<^verbatim>\<open><profile .../>\<close>; the factory
  fills name, type, keys, fields and sub-profiles from them, parses the sub-profile
  elements recursively and leaves every profile with \<open>loaded = false\<close>. An attribute that
  is absent reads as the empty string, as \<^verbatim>\<open>QDomElement::attribute\<close> does.
\<close>

definition attribute :: "(string \<times> string) list \<Rightarrow> string \<Rightarrow> string" where
  "attribute as k = (case map_of as k of None \<Rightarrow> [] | Some v \<Rightarrow> v)"

definition keysOf :: "element list \<Rightarrow> string \<Rightarrow> string option" where
  "keysOf cs =
     foldl (\<lambda>m c. if tag c = ''key''
                   then m(attribute (attrs c) ''name'' \<mapsto> attribute (attrs c) ''value'')
                   else m)
       Map.empty cs"

definition fieldsOf :: "element list \<Rightarrow> string \<Rightarrow> (string \<times> string) list option" where
  "fieldsOf cs =
     foldl (\<lambda>m c. if tag c = ''field''
                   then m(attribute (attrs c) ''name'' \<mapsto> attrs c)
                   else m)
       Map.empty cs"

fun createProfile :: "element \<Rightarrow> profile" where
  "createProfile (Element t as cs) =
     Profile (attribute as ''name'') (attribute as ''type'') (keysOf cs) (fieldsOf cs)
       (map createProfile (filter (\<lambda>c. tag c = ''profile'') cs)) False"

subsection \<open>The private part of the manager: paths, loading, backups\<close>

definition FORMAT_EXT :: string where
  "FORMAT_EXT = ''.xml''"

definition BACKUP_EXT :: string where
  "BACKUP_EXT = ''.bak''"

definition LOG_EXT :: string where
  "LOG_EXT = ''.log''"

definition LOG_DIRECTORY :: string where
  "LOG_DIRECTORY = ''logs''"

definition TYPE_SYNC :: string where
  "TYPE_SYNC = ''sync''"

text \<open>\<^verbatim>\<open>QDir::separator()\<close> on the platform the framework is built for.\<close>

definition separator :: string where
  "separator = ''/''"

record ProfileManagerPrivate =
  iPrimaryPath :: string
  iSecondaryPath :: string

text \<open>The constructor chops one trailing separator off each root.\<close>

definition chopSeparator :: "string \<Rightarrow> string" where
  "chopSeparator s = (if s \<noteq> [] \<and> [last s] = separator then butlast s else s)"

definition newProfileManagerPrivate :: "string \<Rightarrow> string \<Rightarrow> ProfileManagerPrivate" where
  "newProfileManagerPrivate aPrimaryPath aSecondaryPath =
     \<lparr>iPrimaryPath = chopSeparator aPrimaryPath,
      iSecondaryPath = chopSeparator aSecondaryPath\<rparr>"

definition findProfileFile :: "ProfileManagerPrivate \<Rightarrow> filesystem \<Rightarrow> string \<Rightarrow> string \<Rightarrow> path" where
  "findProfileFile d fs aName aType =
     (let fileName = aType @ separator @ aName @ FORMAT_EXT;
          primaryPath = iPrimaryPath d @ separator @ fileName;
          secondaryPath = iSecondaryPath d @ separator @ fileName
      in if QFile_exists fs primaryPath then primaryPath
         else if \<not> QFile_exists fs secondaryPath then primaryPath
         else secondaryPath)"

text \<open>
  \<^verbatim>\<open>parseFile\<close>: the document when the file exists, opens for reading and parses; \<open>None\<close>
  is the C++ \<^verbatim>\<open>false\<close>.
\<close>

definition parseFile :: "filesystem \<Rightarrow> path \<Rightarrow> element option" where
  "parseFile fs aPath =
     (if QFile_exists fs aPath then
        (case open_ReadOnly fs aPath of
           Some (Xml e) \<Rightarrow> Some e
         | Some (Malformed s) \<Rightarrow> None
         | None \<Rightarrow> None)
      else None)"

definition restoreBackupIfFound :: "filesystem \<Rightarrow> path \<Rightarrow> path \<Rightarrow> filesystem" where
  "restoreBackupIfFound fs aProfilePath aBackupPath =
     (if QFile_exists fs aBackupPath then
        (case parseFile fs aBackupPath of
           Some doc \<Rightarrow>
             (let fs1 = snd (QFile_remove fs aProfilePath)
              in snd (QFile_copy fs1 aBackupPath aProfilePath))
         | None \<Rightarrow> snd (QFile_remove fs aBackupPath))
      else fs)"

definition createBackup :: "filesystem \<Rightarrow> path \<Rightarrow> path \<Rightarrow> bool \<times> filesystem" where
  "createBackup fs aProfilePath aBackupPath = QFile_copy fs aProfilePath aBackupPath"

definition load :: "ProfileManagerPrivate \<Rightarrow> filesystem \<Rightarrow> string \<Rightarrow> string \<Rightarrow> profile option \<times> filesystem" where
  "load d fs aName aType =
     (let profilePath = findProfileFile d fs aName aType;
          backupProfilePath = profilePath @ BACKUP_EXT;
          fs1 = restoreBackupIfFound fs profilePath backupProfilePath
      in case parseFile fs1 profilePath of
           Some doc \<Rightarrow>
             (Some (createProfile doc),
              if QFile_exists fs1 backupProfilePath
              then snd (QFile_remove fs1 backupProfilePath) else fs1)
         | None \<Rightarrow> (None, fs1))"

definition writeProfileFile :: "filesystem \<Rightarrow> path \<Rightarrow> element \<Rightarrow> bool \<times> filesystem" where
  "writeProfileFile fs aProfilePath aDoc = open_WriteOnly_Truncate fs aProfilePath (Xml aDoc)"

subsection \<open>The manager: profile, save, remove, rename\<close>

definition profile :: "ProfileManagerPrivate \<Rightarrow> filesystem \<Rightarrow> string \<Rightarrow> string \<Rightarrow> profile option \<times> filesystem" where
  "profile d fs aName aType = load d fs aName aType"

text \<open>
  \<^verbatim>\<open>constructProfileDocument\<close> calls \<^verbatim>\<open>Profile::toXml\<close>, which is not among the sources: it is
  the parameter \<open>toXml\<close>, and \<open>None\<close> is the null element, for which the document stays
  null.
\<close>

definition constructProfileDocument :: "(profile \<Rightarrow> element option) \<Rightarrow> profile \<Rightarrow> element option" where
  "constructProfileDocument toXml aProfile = toXml aProfile"

definition save :: "(profile \<Rightarrow> element option) \<Rightarrow> ProfileManagerPrivate \<Rightarrow> filesystem \<Rightarrow> profile \<Rightarrow> bool \<times> filesystem" where
  "save toXml d fs aProfile =
     (case constructProfileDocument toXml aProfile of
        None \<Rightarrow> (False, fs)
      | Some doc \<Rightarrow>
          (let profilePath = iPrimaryPath d @ separator @ ptype aProfile @ separator
                               @ name aProfile @ FORMAT_EXT;
               oldProfilePath = findProfileFile d fs (ptype aProfile) (name aProfile);
               backupPath = profilePath @ BACKUP_EXT;
               fs1 = (if QFile_exists fs oldProfilePath
                      then snd (createBackup fs oldProfilePath backupPath) else fs)
           in case writeProfileFile fs1 profilePath doc of
                (True, fs2) \<Rightarrow> (True, snd (QFile_remove fs2 backupPath))
              | (False, fs2) \<Rightarrow> (False, fs2)))"

definition remove :: "ProfileManagerPrivate \<Rightarrow> filesystem \<Rightarrow> string \<Rightarrow> string \<Rightarrow> bool \<times> filesystem" where
  "remove d fs aName aType =
     (let filePath = iPrimaryPath d @ separator @ aType @ separator @ aName @ FORMAT_EXT
      in case load d fs aName aType of
           (Some p, fs1) \<Rightarrow>
             if \<not> isProtected p then
               (case QFile_remove fs1 filePath of
                  (True, fs2) \<Rightarrow>
                    (let logFilePath = iPrimaryPath d @ separator @ aType @ separator
                                         @ LOG_DIRECTORY @ separator @ aName @ LOG_EXT @ FORMAT_EXT
                     in QFile_remove fs2 logFilePath)
                | (False, fs2) \<Rightarrow> (False, fs2))
             else (False, fs1)
         | (None, fs1) \<Rightarrow> (False, fs1))"

definition rename :: "ProfileManagerPrivate \<Rightarrow> filesystem \<Rightarrow> string \<Rightarrow> string \<Rightarrow> bool \<times> filesystem" where
  "rename d fs aName aNewName =
     (let source = iPrimaryPath d @ separator @ TYPE_SYNC @ separator @ aName @ FORMAT_EXT;
          destination = iPrimaryPath d @ separator @ TYPE_SYNC @ separator @ aNewName @ FORMAT_EXT
      in case QFile_rename fs source destination of
           (True, fs1) \<Rightarrow>
             (let sourceLog = iPrimaryPath d @ separator @ TYPE_SYNC @ separator
                                @ LOG_DIRECTORY @ separator @ aName @ LOG_EXT @ FORMAT_EXT;
                  destinationLog = iPrimaryPath d @ separator @ TYPE_SYNC @ separator
                                     @ LOG_DIRECTORY @ separator @ aNewName @ LOG_EXT @ FORMAT_EXT
              in case QFile_rename fs1 sourceLog destinationLog of
                   (True, fs2) \<Rightarrow> (True, fs2)
                 | (False, fs2) \<Rightarrow> (False, snd (QFile_rename fs2 destination source)))
         | (False, fs1) \<Rightarrow> (False, fs1))"

subsection \<open>Search criteria\<close>

datatype Type = EQUAL | NOT_EQUAL | EXISTS | NOT_EXISTS

record SearchCriteria =
  iType :: Type
  iSubProfileName :: string
  iSubProfileType :: string
  iKey :: string
  iValue :: string

text \<open>
  Modelled from the spec: \<^verbatim>\<open>Profile::subProfile(name, type)\<close> and
  \<^verbatim>\<open>Profile::subProfileNames(type)\<close> are not among the sources. The sub-profiles of a profile
  are an ordered sequence of children referenced by (name, type): the first child with
  that name and type, and the names of the children of that type.
\<close>

definition subProfile :: "profile \<Rightarrow> string \<Rightarrow> string \<Rightarrow> profile option" where
  "subProfile p aName aType = find (\<lambda>s. name s = aName \<and> ptype s = aType) (subProfiles p)"

definition subProfileNames :: "profile \<Rightarrow> string \<Rightarrow> string list" where
  "subProfileNames p aType = map name (filter (\<lambda>s. ptype s = aType) (subProfiles p))"

text \<open>
  The \<^verbatim>\<open>switch\<close> of \<^verbatim>\<open>matchKey\<close> has a \<^verbatim>\<open>default\<close> branch for values outside the enumeration;
  the datatype has none.
\<close>

definition matchKey :: "profile \<Rightarrow> SearchCriteria \<Rightarrow> bool" where
  "matchKey aProfile aCriteria =
     (if iKey aCriteria \<noteq> [] then
        (case key aProfile (iKey aCriteria) of
           None \<Rightarrow>
             (if iType aCriteria = NOT_EXISTS \<or> iType aCriteria = NOT_EQUAL then True
              else False)
         | Some v \<Rightarrow>
             (case iType aCriteria of
                EXISTS \<Rightarrow> True
              | NOT_EXISTS \<Rightarrow> False
              | EQUAL \<Rightarrow> (v = iValue aCriteria)
              | NOT_EQUAL \<Rightarrow> (v \<noteq> iValue aCriteria)))
      else (if iType aCriteria = NOT_EXISTS then False else True))"

text \<open>The loop over the sub-profiles of one type, left at the first match.\<close>

fun matchAnySubProfile :: "profile \<Rightarrow> SearchCriteria \<Rightarrow> string list \<Rightarrow> bool" where
  "matchAnySubProfile aProfile aCriteria [] = False"
| "matchAnySubProfile aProfile aCriteria (subProfileName # rest) =
     (case subProfile aProfile subProfileName (iSubProfileType aCriteria) of
        Some testProfile \<Rightarrow>
          if matchKey testProfile aCriteria then True
          else matchAnySubProfile aProfile aCriteria rest
      | None \<Rightarrow> matchAnySubProfile aProfile aCriteria rest)"

definition matchProfile :: "profile \<Rightarrow> SearchCriteria \<Rightarrow> bool" where
  "matchProfile aProfile aCriteria =
     (if iSubProfileName aCriteria \<noteq> [] then
        (case subProfile aProfile (iSubProfileName aCriteria) (iSubProfileType aCriteria) of
           Some testProfile \<Rightarrow> matchKey testProfile aCriteria
         | None \<Rightarrow> (if iType aCriteria = NOT_EXISTS then True else False))
      else if iSubProfileType aCriteria \<noteq> [] then
        (let names = subProfileNames aProfile (iSubProfileType aCriteria)
         in if names \<noteq> [] then matchAnySubProfile aProfile aCriteria names
            else (if iType aCriteria = NOT_EXISTS then True else False))
      else matchKey aProfile aCriteria)"

subsection \<open>Sync logs and sync profiles\<close>

text \<open>
  Modelled from the spec: the class \<^verbatim>\<open>SyncLog\<close> is not among the sources. A log carries the
  profile name and the ordered results; its XML is a root \<^verbatim>\<open><syncLog profile="..">\<close> with a
  list of \<^verbatim>\<open><syncResults>\<close> entries, kept here as elements. \<^verbatim>\<open>SyncLog(name)\<close> is the empty
  log carrying only the profile name.
\<close>

record SyncLog =
  profileName :: string
  results :: "element list"

definition newSyncLog :: "string \<Rightarrow> SyncLog" where
  "newSyncLog aProfileName = \<lparr>profileName = aProfileName, results = []\<rparr>"

definition SyncLog_fromXml :: "element \<Rightarrow> SyncLog" where
  "SyncLog_fromXml e =
     \<lparr>profileName = attribute (attrs e) ''profile'',
      results = filter (\<lambda>c. tag c = ''syncResults'') (children e)\<rparr>"

definition loadLog :: "ProfileManagerPrivate \<Rightarrow> filesystem \<Rightarrow> string \<Rightarrow> SyncLog option" where
  "loadLog d fs aProfileName =
     (let fileName = iPrimaryPath d @ separator @ TYPE_SYNC @ separator
                       @ LOG_DIRECTORY @ separator @ aProfileName @ LOG_EXT @ FORMAT_EXT
      in if \<not> QFile_exists fs fileName then None
         else (case open_ReadOnly fs fileName of
                 None \<Rightarrow> None
               | Some (Malformed s) \<Rightarrow> None
               | Some (Xml e) \<Rightarrow> Some (SyncLog_fromXml e)))"

text \<open>
  Modelled from the spec: a \<^verbatim>\<open>SyncProfile\<close> is a profile of type \<^verbatim>\<open>sync\<close> with an optional
  log. The factory builds one, with no log yet, exactly when the element's type is
  \<^verbatim>\<open>sync\<close>; \<open>asSyncProfile\<close> is the \<^verbatim>\<open>static_cast\<close> that \<^verbatim>\<open>syncProfile\<close> applies after it has
  checked the type. The schedule and the sync type play no part in the functions embedded
  here and are left out.
\<close>

record SyncProfile =
  base :: profile
  iLog :: "SyncLog option"

definition asSyncProfile :: "profile \<Rightarrow> SyncProfile" where
  "asSyncProfile p = \<lparr>base = p, iLog = None\<rparr>"

subsection \<open>Sub-profile trees: pointers, merge\<close>

text \<open>
  Modelled from the spec: \<^verbatim>\<open>Profile::allSubProfiles\<close> is not among the sources. For the
  expander to reach the sub-profiles that a merge brings in below a sub-profile, it lists
  every profile below the root, parents before their children.

  \<^verbatim>\<open>expand\<close> holds pointers to the sub-profiles of the profile it changes. A pointer is the
  position of the node: the child indices on the way down from the root. The merge below
  only changes nodes in place and appends children, so a position keeps naming the node it
  named. \<open>node_at\<close> reads through a pointer and \<open>setLoaded_at\<close> is \<^verbatim>\<open>sub->setLoaded(true)\<close>.
\<close>

fun positions :: "nat \<Rightarrow> profile list \<Rightarrow> nat list list" where
  "positions i [] = []"
| "positions i (Profile n t ks fl ss l # cs) =
     [i] # map ((#) i) (positions 0 ss) @ positions (Suc i) cs"

definition allSubProfiles :: "profile \<Rightarrow> nat list list" where
  "allSubProfiles p = positions 0 (subProfiles p)"

fun node_at :: "profile \<Rightarrow> nat list \<Rightarrow> profile option" where
  "node_at p [] = Some p"
| "node_at p (i # is) =
     (if i < length (subProfiles p) then node_at (subProfiles p ! i) is else None)"

fun setLoaded_at :: "profile \<Rightarrow> nat list \<Rightarrow> profile" where
  "setLoaded_at p [] = setLoaded p True"
| "setLoaded_at p (i # is) =
     (if i < length (subProfiles p)
      then setSubProfiles p ((subProfiles p)[i := setLoaded_at (subProfiles p ! i) is])
      else p)"

text \<open>A profile is referenced by its name and type.\<close>

definition ident :: "profile \<Rightarrow> string \<times> string" where
  "ident p = (name p, ptype p)"

fun nodes :: "profile \<Rightarrow> profile list" where
  "nodes (Profile n t ks fl ss l) = Profile n t ks fl ss l # concat (map nodes ss)"

definition descendants :: "profile \<Rightarrow> profile list" where
  "descendants p = concat (map nodes (subProfiles p))"

text \<open>
  Modelled from the spec: \<^verbatim>\<open>Profile::merge\<close> is not among the sources. \<open>merge root external\<close>
  locates the sub-profile inside \<open>root\<close> whose (name, type) equals the external profile's
  (the first one, parents before children) and overlays the external keys, fields and
  sub-profiles onto that node: an external value replaces the value of the same key or
  field, and the sub-profiles of the external profile that are not yet present in \<open>root\<close>
  are appended to the node. When \<open>root\<close> has no such sub-profile there is no node to overlay
  and \<open>root\<close> stays as it is.
\<close>

fun absentSubProfiles :: "(string \<times> string) list \<Rightarrow> profile list \<Rightarrow> profile list" where
  "absentSubProfiles present [] = []"
| "absentSubProfiles present (s # ss) =
     (if ident s \<in> set present then absentSubProfiles present ss
      else s # absentSubProfiles (map ident (nodes s) @ present) ss)"

definition overlay :: "profile \<Rightarrow> profile list \<Rightarrow> profile \<Rightarrow> profile" where
  "overlay external new target =
     Profile (name target) (ptype target)
       (keys target ++ keys external) (pfields target ++ pfields external)
       (subProfiles target @ new) (isLoaded target)"

fun overlayFirst :: "string \<times> string \<Rightarrow> (profile \<Rightarrow> profile) \<Rightarrow> profile list \<Rightarrow> profile list option" where
  "overlayFirst q f [] = None"
| "overlayFirst q f (Profile n t ks fl ss l # cs) =
     (if (n, t) = q then Some (f (Profile n t ks fl ss l) # cs)
      else (case overlayFirst q f ss of
              Some ss' \<Rightarrow> Some (Profile n t ks fl ss' l # cs)
            | None \<Rightarrow> map_option ((#) (Profile n t ks fl ss l)) (overlayFirst q f cs)))"

definition merge :: "profile \<Rightarrow> profile \<Rightarrow> profile" where
  "merge root external =
     (let new = absentSubProfiles (map ident (descendants root)) (subProfiles external)
      in case overlayFirst (ident external) (overlay external new) (subProfiles root) of
           Some ss' \<Rightarrow> setSubProfiles root ss'
         | None \<Rightarrow> root)"

subsection \<open>Expanding a profile\<close>

text \<open>
  The body of the \<^verbatim>\<open>foreach\<close> of \<^verbatim>\<open>expand\<close> for one pointer \<open>sub\<close>, and the \<^verbatim>\<open>foreach\<close> over the
  list of pointers that \<^verbatim>\<open>allSubProfiles\<close> returned. A pointer that names no node does not
  occur (see above); the function leaves the state alone for it.
\<close>

definition expand_sub :: "ProfileManagerPrivate \<Rightarrow> filesystem \<Rightarrow> profile \<Rightarrow> nat list \<Rightarrow> filesystem \<times> profile" where
  "expand_sub d fs aProfile sub =
     (case node_at aProfile sub of
        None \<Rightarrow> (fs, aProfile)
      | Some s \<Rightarrow>
          if \<not> isLoaded s then
            (case profile d fs (name s) (ptype s) of
               (Some loadedProfile, fs1) \<Rightarrow> (fs1, setLoaded_at (merge aProfile loadedProfile) sub)
             | (None, fs1) \<Rightarrow> (fs1, setLoaded_at aProfile sub))
          else (fs, aProfile))"

fun expand_pass :: "ProfileManagerPrivate \<Rightarrow> filesystem \<Rightarrow> profile \<Rightarrow> nat list list \<Rightarrow> filesystem \<times> profile" where
  "expand_pass d fs aProfile [] = (fs, aProfile)"
| "expand_pass d fs aProfile (sub # rest) =
     (case expand_sub d fs aProfile sub of
        (fs1, aProfile1) \<Rightarrow> expand_pass d fs1 aProfile1 rest)"

text \<open>
  The names and types of the profiles in a list of trees, of the profiles below a root, and
  of the profiles that the files of the file system mention. The referenced profiles that
  the files mention and the tree does not hold yet are what is left to bring in.
\<close>

definition identsOf :: "profile list \<Rightarrow> (string \<times> string) list" where
  "identsOf ss = map ident (concat (map nodes ss))"

definition identsBelow :: "profile \<Rightarrow> (string \<times> string) list" where
  "identsBelow p = map ident (descendants p)"

definition fileIdents :: "fileinfo \<Rightarrow> (string \<times> string) set" where
  "fileIdents f = (case body f of Xml e \<Rightarrow> ident ` set (nodes (createProfile e)) | Malformed s \<Rightarrow> {})"

definition mentioned :: "filesystem \<Rightarrow> (string \<times> string) set" where
  "mentioned fs = (\<Union>f \<in> fmran' fs. fileIdents f)"

definition unresolved :: "filesystem \<Rightarrow> profile \<Rightarrow> (string \<times> string) set" where
  "unresolved fs root = mentioned fs - set (identsBelow root)"

text \<open>
  The measure of a state of the loop: zero when the loop is about to stop, and otherwise
  growing with the number of profiles left to bring in. Every pass that lets the loop go on
  brings at least one of them in.
\<close>

definition loop_measure ::
  "ProfileManagerPrivate \<times> filesystem \<times> profile \<times> nat list list \<times> nat \<times> nat \<Rightarrow> nat" where
  "loop_measure = (\<lambda>(d, fs, aProfile, subs, prevSubCount, subCount).
          if subCount > prevSubCount
          then 2 + 2 * card (unresolved fs aProfile)
               + (if subCount = length (allSubProfiles aProfile) then 0 else 1)
          else 0)"

subsubsection \<open>Facts for the termination of the loop\<close>

lemma finite_mentioned: "finite (mentioned fs)"
  by (auto simp: mentioned_def fmran'_alt_def fileIdents_def split: content.splits)

lemma ran_QFile_remove: "fmran' (snd (QFile_remove fs p)) \<subseteq> fmran' fs"
  by (auto simp: QFile_remove_def fmlookup_ran'_iff split: if_splits)

lemma ran_QFile_copy: "fmran' (snd (QFile_copy fs a b)) \<subseteq> fmran' fs"
  by (auto simp: QFile_copy_def fmlookup_ran'_iff split: option.splits if_splits)

lemma ran_restoreBackupIfFound: "fmran' (restoreBackupIfFound fs p b) \<subseteq> fmran' fs"
proof -
  have "fmran' (snd (QFile_copy (snd (QFile_remove fs p)) b p)) \<subseteq> fmran' fs"
    using ran_QFile_copy ran_QFile_remove by blast
  then show ?thesis
    using ran_QFile_remove by (auto simp: restoreBackupIfFound_def Let_def split: option.splits)
qed

lemma ran_load: "fmran' (snd (load d fs aName aType)) \<subseteq> fmran' fs"
proof -
  let ?p = "findProfileFile d fs aName aType"
  let ?fs1 = "restoreBackupIfFound fs ?p (?p @ BACKUP_EXT)"
  have "fmran' (snd (QFile_remove ?fs1 (?p @ BACKUP_EXT))) \<subseteq> fmran' fs"
    using ran_QFile_remove ran_restoreBackupIfFound by blast
  then show ?thesis
    using ran_restoreBackupIfFound[of fs ?p "?p @ BACKUP_EXT"]
    by (auto simp: load_def Let_def split: option.splits)
qed

lemma mentioned_mono: "fmran' fs' \<subseteq> fmran' fs \<Longrightarrow> mentioned fs' \<subseteq> mentioned fs"
  by (auto simp: mentioned_def)

lemma parseFile_ran:
  "parseFile fs p = Some e \<Longrightarrow> \<exists>f \<in> fmran' fs. body f = Xml e"
  by (auto simp: parseFile_def open_ReadOnly_def
      split: if_splits option.splits content.splits intro: fmran'I)

lemma load_Some_mentioned:
  assumes "load d fs aName aType = (Some lp, fs')"
  shows "ident ` set (nodes lp) \<subseteq> mentioned fs"
proof -
  let ?p = "findProfileFile d fs aName aType"
  let ?fs1 = "restoreBackupIfFound fs ?p (?p @ BACKUP_EXT)"
  from assms obtain e where e: "parseFile ?fs1 ?p = Some e" and lp: "lp = createProfile e"
    by (auto simp: load_def Let_def split: option.splits)
  from parseFile_ran[OF e] obtain f where f: "f \<in> fmran' ?fs1" "body f = Xml e" by blast
  with ran_restoreBackupIfFound have "f \<in> fmran' fs" by blast
  with f lp show ?thesis by (auto simp: mentioned_def fileIdents_def)
qed


lemma identsOf_Nil [simp]: "identsOf [] = []"
  by (simp add: identsOf_def)

lemma identsOf_Cons [simp]:
  "identsOf (Profile n t ks fl ss l # cs) = (n, t) # identsOf ss @ identsOf cs"
  by (simp add: identsOf_def ident_def)

lemma identsOf_append [simp]: "identsOf (as @ bs) = identsOf as @ identsOf bs"
  by (simp add: identsOf_def)

lemma identsOf_Cons_sel: "identsOf (p # cs) = ident p # identsOf (subProfiles p) @ identsOf cs"
  by (cases p) (simp add: ident_def)

lemma identsBelow_identsOf: "identsBelow p = identsOf (subProfiles p)"
  by (simp add: identsBelow_def identsOf_def descendants_def)

lemma length_positions: "length (positions i ss) = length (identsOf ss)"
  by (induction i ss rule: positions.induct) simp_all

lemma length_allSubProfiles: "length (allSubProfiles p) = length (identsBelow p)"
  by (simp add: allSubProfiles_def identsBelow_identsOf length_positions)

lemma identsOf_overlay:
  "identsOf (overlay ext new t # cs) = ident t # identsOf (subProfiles t) @ identsOf new @ identsOf cs"
  by (simp add: overlay_def ident_def)

lemma overlayFirst_idents:
  assumes "overlayFirst q (overlay ext new) ss = Some ss'"
  shows "set (identsOf ss') = set (identsOf ss) \<union> set (identsOf new)
         \<and> length (identsOf ss') = length (identsOf ss) + length (identsOf new)"
  using assms
proof (induction q "overlay ext new" ss arbitrary: ss' rule: overlayFirst.induct)
  case (1 q)
  then show ?case by simp
next
  case (2 q n t ks fl ss l cs)
  show ?case
  proof (cases "(n, t) = q")
    case True
    with 2 have ss': "ss' = overlay ext new (Profile n t ks fl ss l) # cs" by simp
    show ?thesis
      unfolding ss' identsOf_overlay by (auto simp: ident_def)
  next
    case False
    show ?thesis
    proof (cases "overlayFirst q (overlay ext new) ss")
      case (Some sub')
      with False 2 have ss': "ss' = Profile n t ks fl sub' l # cs" by simp
      from 2(1)[OF False Some] show ?thesis
        unfolding ss' by auto
    next
      case None
      with False 2 obtain cs' where cs': "overlayFirst q (overlay ext new) cs = Some cs'"
        and ss': "ss' = Profile n t ks fl ss l # cs'" by auto
      from 2(2)[OF False None cs'] show ?thesis
        unfolding ss' by auto
    qed
  qed
qed

lemma absentSubProfiles_subset:
  "set (identsOf (absentSubProfiles present ss)) \<subseteq> set (identsOf ss)"
  by (induction present ss rule: absentSubProfiles.induct)
     (auto simp: identsOf_Cons_sel)

lemma absentSubProfiles_fresh:
  "absentSubProfiles present ss \<noteq> [] \<Longrightarrow>
   \<exists>x \<in> set (identsOf (absentSubProfiles present ss)). x \<notin> set present"
  by (induction present ss rule: absentSubProfiles.induct)
     (auto simp: identsOf_Cons_sel split: if_splits)

lemma identsOf_empty_iff: "identsOf ss = [] \<longleftrightarrow> ss = []"
  by (cases ss) (simp_all add: identsOf_Cons_sel)

lemma subProfiles_setSubProfiles [simp]: "subProfiles (setSubProfiles p ss) = ss"
  by (simp add: setSubProfiles_def)

lemma ident_setSubProfiles [simp]: "ident (setSubProfiles p ss) = ident p"
  by (simp add: setSubProfiles_def ident_def)

lemma ident_setLoaded [simp]: "ident (setLoaded p b) = ident p"
  by (simp add: setLoaded_def ident_def)

lemma subProfiles_setLoaded [simp]: "subProfiles (setLoaded p b) = subProfiles p"
  by (simp add: setLoaded_def)

text \<open>What a merge does to the sub-profiles below the root.\<close>
lemma merge_idents:
  "set (identsBelow root) \<subseteq> set (identsBelow (merge root ext))
   \<and> set (identsBelow (merge root ext)) \<subseteq> set (identsBelow root) \<union> ident ` set (nodes ext)
   \<and> length (identsBelow root) \<le> length (identsBelow (merge root ext))
   \<and> (length (identsBelow root) < length (identsBelow (merge root ext)) \<longrightarrow>
        (\<exists>x \<in> set (identsBelow (merge root ext)). x \<notin> set (identsBelow root)))"
proof -
  let ?new = "absentSubProfiles (map ident (descendants root)) (subProfiles ext)"
  show ?thesis
  proof (cases "overlayFirst (ident ext) (overlay ext ?new) (subProfiles root)")
    case None
    then show ?thesis by (simp add: merge_def Let_def)
  next
    case (Some ss')
    then have m: "identsBelow (merge root ext) = identsOf ss'"
      by (simp add: merge_def Let_def identsBelow_identsOf)
    note o = overlayFirst_idents[OF Some]
    have sub: "set (identsOf ?new) \<subseteq> ident ` set (nodes ext)"
      using absentSubProfiles_subset[of "map ident (descendants root)" "subProfiles ext"]
      by (cases ext) (auto simp: identsOf_def)
    have fresh: "\<exists>x \<in> set (identsOf ?new). x \<notin> set (identsBelow root)"
      if "length (identsOf ?new) > 0"
    proof -
      from that have "?new \<noteq> []" by (auto simp: identsOf_empty_iff)
      from absentSubProfiles_fresh[OF this] show ?thesis
        by (simp add: identsBelow_def)
    qed
    show ?thesis
      unfolding m using o sub fresh by (auto simp: identsBelow_identsOf)
  qed
qed


lemma identsOf_update:
  "i < length ss \<Longrightarrow> ident x = ident (ss ! i) \<Longrightarrow>
   identsOf (subProfiles x) = identsOf (subProfiles (ss ! i)) \<Longrightarrow>
   identsOf (ss[i := x]) = identsOf ss"
proof (induction ss arbitrary: i)
  case Nil
  then show ?case by simp
next
  case (Cons a ss)
  then show ?case by (cases i) (simp_all add: identsOf_Cons_sel)
qed

lemma setLoaded_at_idents:
  "ident (setLoaded_at p is) = ident p
   \<and> identsOf (subProfiles (setLoaded_at p is)) = identsOf (subProfiles p)"
proof (induction p "is" rule: setLoaded_at.induct)
  case (1 p)
  then show ?case by simp
next
  case (2 p i "is")
  then show ?case by (simp add: identsOf_update)
qed

lemma identsBelow_setLoaded_at [simp]: "identsBelow (setLoaded_at p is) = identsBelow p"
  by (simp add: identsBelow_identsOf setLoaded_at_idents)

text \<open>One sub-profile, then one pass over the pointers: what they do to the files and the tree.\<close>
lemma expand_sub_idents:
  assumes "expand_sub d fs root sub = (fs', root')"
  shows "mentioned fs' \<subseteq> mentioned fs
   \<and> set (identsBelow root) \<subseteq> set (identsBelow root')
   \<and> set (identsBelow root') \<subseteq> set (identsBelow root) \<union> mentioned fs
   \<and> length (identsBelow root) \<le> length (identsBelow root')
   \<and> (length (identsBelow root) < length (identsBelow root') \<longrightarrow>
        (\<exists>x \<in> set (identsBelow root'). x \<notin> set (identsBelow root)))"
proof (cases "node_at root sub")
  case None
  with assms show ?thesis by (simp add: expand_sub_def)
next
  case (Some s)
  show ?thesis
  proof (cases "isLoaded s")
    case True
    with Some assms show ?thesis by (simp add: expand_sub_def)
  next
    case False
    obtain r fs1 where ld: "load d fs (name s) (ptype s) = (r, fs1)"
      by (cases "load d fs (name s) (ptype s)")
    have m1: "mentioned fs1 \<subseteq> mentioned fs"
      using ran_load[of d fs "name s" "ptype s"] ld by (auto intro: mentioned_mono[THEN subsetD])
    show ?thesis
    proof (cases r)
      case None
      with assms Some False ld have "fs' = fs1" "root' = setLoaded_at root sub"
        by (simp_all add: expand_sub_def profile_def)
      with m1 show ?thesis by simp
    next
      case (Some lp)
      with assms \<open>node_at root sub = Some s\<close> False ld
      have eq: "fs' = fs1" "root' = setLoaded_at (merge root lp) sub"
        by (simp_all add: expand_sub_def profile_def)
      have lpm: "ident ` set (nodes lp) \<subseteq> mentioned fs"
        using load_Some_mentioned ld Some by blast
      from merge_idents[of root lp] lpm m1 show ?thesis
        unfolding eq identsBelow_setLoaded_at by blast
    qed
  qed
qed

lemma expand_pass_idents:
  "expand_pass d fs root ss = (fs', root') \<Longrightarrow>
   mentioned fs' \<subseteq> mentioned fs
   \<and> set (identsBelow root) \<subseteq> set (identsBelow root')
   \<and> set (identsBelow root') \<subseteq> set (identsBelow root) \<union> mentioned fs
   \<and> length (identsBelow root) \<le> length (identsBelow root')
   \<and> (length (identsBelow root) < length (identsBelow root') \<longrightarrow>
        (\<exists>x \<in> set (identsBelow root'). x \<notin> set (identsBelow root)))"
proof (induction ss arbitrary: fs root)
  case Nil
  then show ?case by simp
next
  case (Cons sub rest)
  obtain fs1 p1 where st: "expand_sub d fs root sub = (fs1, p1)"
    by (cases "expand_sub d fs root sub")
  with Cons.prems have rest: "expand_pass d fs1 p1 rest = (fs', root')" by simp
  note a = expand_sub_idents[OF st]
  note ih = Cons.IH[OF rest]
  show ?case
  proof (intro conjI impI)
    show "mentioned fs' \<subseteq> mentioned fs" using ih a by blast
    show "set (identsBelow root) \<subseteq> set (identsBelow root')" using ih a by blast
    show "set (identsBelow root') \<subseteq> set (identsBelow root) \<union> mentioned fs"
      using ih a by blast
    show "length (identsBelow root) \<le> length (identsBelow root')" using ih a by linarith
    assume lt: "length (identsBelow root) < length (identsBelow root')"
    show "\<exists>x \<in> set (identsBelow root'). x \<notin> set (identsBelow root)"
    proof (cases "length (identsBelow root) < length (identsBelow p1)")
      case True
      with a ih show ?thesis by blast
    next
      case False
      with a lt have "length (identsBelow p1) < length (identsBelow root')" by linarith
      with ih a show ?thesis by blast
    qed
  qed
qed

lemma expand_pass_unresolved:
  assumes "expand_pass d fs root ss = (fs', root')"
  shows "card (unresolved fs' root') \<le> card (unresolved fs root)"
    and "length (identsBelow root) < length (identsBelow root')
         \<Longrightarrow> card (unresolved fs' root') < card (unresolved fs root)"
proof -
  note i = expand_pass_idents[OF assms]
  have fin: "finite (unresolved fs root)"
    by (simp add: unresolved_def finite_mentioned)
  have sub: "unresolved fs' root' \<subseteq> unresolved fs root"
    using i by (auto simp: unresolved_def)
  show "card (unresolved fs' root') \<le> card (unresolved fs root)"
    by (rule card_mono[OF fin sub])
  assume "length (identsBelow root) < length (identsBelow root')"
  with i obtain x where x: "x \<in> set (identsBelow root')" "x \<notin> set (identsBelow root)" by blast
  with i have "x \<in> unresolved fs root" "x \<notin> unresolved fs' root'"
    by (auto simp: unresolved_def)
  with sub have "unresolved fs' root' \<subset> unresolved fs root" by blast
  then show "card (unresolved fs' root') < card (unresolved fs root)"
    by (rule psubset_card_mono[OF fin])
qed

lemma expand_loop_decreases:
  assumes "prevSubCount < subCount"
    and pass: "expand_pass d fs aProfile subs = (fs1, aProfile1)"
  shows "loop_measure (d, fs1, aProfile1, allSubProfiles aProfile1, subCount,
                       length (allSubProfiles aProfile1))
         < loop_measure (d, fs, aProfile, subs, prevSubCount, subCount)"
proof -
  note u = expand_pass_unresolved[OF pass]
  note i = expand_pass_idents[OF pass]
  show ?thesis
  proof (cases "length (identsBelow aProfile) < length (identsBelow aProfile1)")
    case True
    from u(2)[OF True] assms(1) show ?thesis
      by (simp add: loop_measure_def length_allSubProfiles)
  next
    case False
    with i have "length (identsBelow aProfile1) = length (identsBelow aProfile)" by linarith
    with u(1) assms(1) show ?thesis
      by (auto simp: loop_measure_def length_allSubProfiles)
  qed
qed

subsubsection \<open>The loop and the expander\<close>

text \<open>
  The \<^verbatim>\<open>while (subCount > prevSubCount)\<close> loop of \<^verbatim>\<open>expand\<close>, entered with the pointers and
  the two counters. The counters are C++ \<^verbatim>\<open>int\<close>s holding list sizes, here natural numbers.
\<close>

function expand_loop ::
  "ProfileManagerPrivate \<Rightarrow> filesystem \<Rightarrow> profile \<Rightarrow> nat list list \<Rightarrow> nat \<Rightarrow> nat
   \<Rightarrow> filesystem \<times> profile" where
  "expand_loop d fs aProfile subs prevSubCount subCount =
     (if subCount > prevSubCount then
        (case expand_pass d fs aProfile subs of
           (fs1, aProfile1) \<Rightarrow>
             expand_loop d fs1 aProfile1 (allSubProfiles aProfile1) subCount
               (length (allSubProfiles aProfile1)))
      else (fs, aProfile))"
  by pat_completeness auto
termination
  by (relation "measure loop_measure") (auto simp: expand_loop_decreases)

declare expand_loop.simps [simp del]

text \<open>How many times the loop runs its body: the same loop, counting.\<close>

function expand_iterations ::
  "ProfileManagerPrivate \<Rightarrow> filesystem \<Rightarrow> profile \<Rightarrow> nat list list \<Rightarrow> nat \<Rightarrow> nat \<Rightarrow> nat" where
  "expand_iterations d fs aProfile subs prevSubCount subCount =
     (if subCount > prevSubCount then
        (case expand_pass d fs aProfile subs of
           (fs1, aProfile1) \<Rightarrow>
             Suc (expand_iterations d fs1 aProfile1 (allSubProfiles aProfile1) subCount
                    (length (allSubProfiles aProfile1))))
      else 0)"
  by pat_completeness auto
termination
  by (relation "measure loop_measure") (auto simp: expand_loop_decreases)

declare expand_iterations.simps [simp del]

definition expand :: "ProfileManagerPrivate \<Rightarrow> filesystem \<Rightarrow> profile \<Rightarrow> filesystem \<times> profile" where
  "expand d fs aProfile =
     (if isLoaded aProfile then (fs, aProfile)
      else (let subs = allSubProfiles aProfile
            in case expand_loop d fs aProfile subs 0 (length subs) of
                 (fs1, aProfile1) \<Rightarrow> (fs1, setLoaded aProfile1 True)))"

subsection \<open>Sync profiles and queries\<close>

definition syncProfile :: "ProfileManagerPrivate \<Rightarrow> filesystem \<Rightarrow> string \<Rightarrow> SyncProfile option \<times> filesystem" where
  "syncProfile d fs aName =
     (case profile d fs aName TYPE_SYNC of
        (Some p, fs1) \<Rightarrow>
          if ptype p = TYPE_SYNC then
            (case expand d fs1 p of
               (fs2, p') \<Rightarrow>
                 (let sp = asSyncProfile p'
                  in if iLog sp = None then
                       (let log = (case loadLog d fs2 aName of
                                     None \<Rightarrow> newSyncLog aName
                                   | Some l \<Rightarrow> l)
                        in (Some (sp\<lparr>iLog := Some log\<rparr>), fs2))
                     else (Some sp, fs2)))
          else (None, fs1)
      | (None, fs1) \<Rightarrow> (None, fs1))"

text \<open>
  \<^verbatim>\<open>QDir(dir).entryInfoList({"*.xml"}, QDir::Files | QDir::NoSymLinks)\<close> followed by
  \<^verbatim>\<open>completeBaseName()\<close>: the files directly in the directory whose name ends in \<^verbatim>\<open>.xml\<close>
  (Qt matches a name filter without regard to case unless \<^verbatim>\<open>QDir::CaseSensitive\<close> is given,
  and leaves out the hidden files, whose names start with a dot), each without its last
  suffix. The entries come in the order of the character codes of their paths, where Qt
  sorts by name without regard to case; nothing below depends on the order.
\<close>

definition matchesFormatFilter :: "string \<Rightarrow> bool" where
  "matchesFormatFilter f =
     (4 \<le> length f \<and>
      (let s = drop (length f - 4) f
       in s ! 0 = CHR ''.'' \<and> s ! 1 \<in> {CHR ''x'', CHR ''X''}
          \<and> s ! 2 \<in> {CHR ''m'', CHR ''M''} \<and> s ! 3 \<in> {CHR ''l'', CHR ''L''}))"

definition entryBaseNames :: "filesystem \<Rightarrow> path \<Rightarrow> string list" where
  "entryBaseNames fs dir =
     (let prefix = dir @ separator;
          inDir = filter (\<lambda>p. take (length prefix) p = prefix)
                    (sorted_list_of_set (fmdom' fs));
          fileNames = map (drop (length prefix)) inDir;
          listed = filter (\<lambda>f. set separator \<inter> set f = {} \<and> f \<noteq> [] \<and> hd f \<noteq> CHR ''.''
                                \<and> matchesFormatFilter f) fileNames
      in map (\<lambda>f. take (length f - 4) f) listed)"

definition profileNames :: "ProfileManagerPrivate \<Rightarrow> filesystem \<Rightarrow> string \<Rightarrow> string list" where
  "profileNames d fs aType =
     (let names = entryBaseNames fs (iPrimaryPath d @ separator @ aType)
      in foldl (\<lambda>names profileName.
                  if profileName \<notin> set names then names @ [profileName] else names)
           names (entryBaseNames fs (iSecondaryPath d @ separator @ aType)))"

fun syncProfilesOf :: "ProfileManagerPrivate \<Rightarrow> filesystem \<Rightarrow> string list \<Rightarrow> SyncProfile list \<times> filesystem" where
  "syncProfilesOf d fs [] = ([], fs)"
| "syncProfilesOf d fs (aName # names) =
     (case syncProfile d fs aName of
        (p, fs1) \<Rightarrow>
          (case syncProfilesOf d fs1 names of
             (profiles, fs2) \<Rightarrow>
               (case p of Some sp \<Rightarrow> (sp # profiles, fs2) | None \<Rightarrow> (profiles, fs2))))"

definition allSyncProfiles :: "ProfileManagerPrivate \<Rightarrow> filesystem \<Rightarrow> SyncProfile list \<times> filesystem" where
  "allSyncProfiles d fs = syncProfilesOf d fs (profileNames d fs TYPE_SYNC)"

text \<open>
  The inner \<^verbatim>\<open>foreach\<close> of \<^verbatim>\<open>getSyncProfilesByData(criteria)\<close>, left at the first criterion
  that does not match, and the outer one over the profiles. \<^verbatim>\<open>allSyncProfiles\<close> appends no null
  pointer, so the list holds profiles only and the test for null has nothing to skip.
\<close>

fun matchedAll :: "SyncProfile \<Rightarrow> SearchCriteria list \<Rightarrow> bool" where
  "matchedAll p [] = True"
| "matchedAll p (criteria # rest) =
     (if \<not> matchProfile (base p) criteria then False else matchedAll p rest)"

fun matchingProfiles :: "SyncProfile list \<Rightarrow> SearchCriteria list \<Rightarrow> SyncProfile list" where
  "matchingProfiles [] aCriteria = []"
| "matchingProfiles (p # allProfiles) aCriteria =
     (if matchedAll p aCriteria then p # matchingProfiles allProfiles aCriteria
      else matchingProfiles allProfiles aCriteria)"

definition getSyncProfilesByData :: "ProfileManagerPrivate \<Rightarrow> filesystem \<Rightarrow> SearchCriteria list \<Rightarrow> SyncProfile list \<times> filesystem" where
  "getSyncProfilesByData d fs aCriteria =
     (case allSyncProfiles d fs of
        (allProfiles, fs1) \<Rightarrow> (matchingProfiles allProfiles aCriteria, fs1))"

section \<open>Example stores\<close>

text \<open>
  A manager over the roots \<^verbatim>\<open>/home\<close> (primary, given with a trailing separator) and
  \<^verbatim>\<open>/etc\<close> (secondary), and a few small file systems on which the properties below are
  exercised.
\<close>

definition d0 :: ProfileManagerPrivate where
  "d0 = newProfileManagerPrivate ''/home/'' ''/etc''"

definition regular :: "element \<Rightarrow> fileinfo" where
  "regular e = \<lparr>body = Xml e, readable = True, writable = True\<rparr>"

definition readOnly :: "element \<Rightarrow> fileinfo" where
  "readOnly e = \<lparr>body = Xml e, readable = True, writable = False\<rparr>"

text \<open>A profile document of type \<^verbatim>\<open>sync\<close> with the given name and keys.\<close>

definition syncDoc :: "string \<Rightarrow> (string \<times> string) list \<Rightarrow> element" where
  "syncDoc n ks = Element ''profile'' [(''name'', n), (''type'', ''sync'')]
     (map (\<lambda>(k, v). Element ''key'' [(''name'', k), (''value'', v)] []) ks)"

text \<open>The protected profile \<^verbatim>\<open>keep\<close>, alone and with a pending backup of older content.\<close>

definition keepDoc :: "string \<Rightarrow> element" where
  "keepDoc v = syncDoc ''keep'' [(''protected'', ''true''), (''k'', v)]"

definition fsKeep :: filesystem where
  "fsKeep = fmupd ''/home/sync/keep.xml'' (regular (keepDoc ''v1'')) fmempty"

definition fsKeepBackup :: filesystem where
  "fsKeepBackup = fmupd ''/home/sync/keep.xml.bak'' (regular (keepDoc ''v0'')) fsKeep"

text \<open>The profile \<^verbatim>\<open>foo\<close> in both roots.\<close>

definition fsBoth :: filesystem where
  "fsBoth = fmupd ''/home/sync/foo.xml'' (regular (syncDoc ''foo'' [(''owner'', ''user'')]))
           (fmupd ''/etc/sync/foo.xml'' (regular (syncDoc ''foo'' [(''owner'', ''system'')]))
              fmempty)"

text \<open>
  The same store with a pending backup of the primary file: one that parses, with an older
  owner, and one that does not parse.
\<close>

definition fsBothBackup :: filesystem where
  "fsBothBackup = fmupd ''/home/sync/foo.xml.bak'' (regular (syncDoc ''foo'' [(''owner'', ''old'')]))
                   fsBoth"

definition fsBothGarbage :: filesystem where
  "fsBothGarbage = fmupd ''/home/sync/foo.xml.bak''
                     \<lparr>body = Malformed ''<profile'', readable = True, writable = True\<rparr> fsBoth"


text \<open>The profile \<^verbatim>\<open>foo\<close>: read-only, next to a profile \<^verbatim>\<open>sync\<close> of type \<^verbatim>\<open>foo\<close>, and alone.\<close>

definition fooNew :: element where
  "fooNew = syncDoc ''foo'' [(''owner'', ''me'')]"

definition fsFooReadOnly :: filesystem where
  "fsFooReadOnly = fmupd ''/home/sync/foo.xml'' (readOnly (syncDoc ''foo'' [])) fmempty"

definition fsFooSwapped :: filesystem where
  "fsFooSwapped = fmupd ''/home/foo/sync.xml''
                    (regular (Element ''profile'' [(''name'', ''sync''), (''type'', ''foo'')] []))
                    fsFooReadOnly"

definition fsFoo :: filesystem where
  "fsFoo = fmupd ''/home/sync/foo.xml'' (regular (syncDoc ''foo'' [])) fmempty"

text \<open>
  Two sync profiles, \<^verbatim>\<open>a\<close> without the key \<^verbatim>\<open>hidden\<close> and \<^verbatim>\<open>b\<close> with \<^verbatim>\<open>hidden = true\<close>, the
  criterion \<^verbatim>\<open>hidden \<noteq> true\<close>, and what \<open>syncProfile\<close> makes of a profile without
  sub-profiles and without a log.
\<close>

definition fsTwo :: filesystem where
  "fsTwo = fmupd ''/home/sync/b.xml'' (regular (syncDoc ''b'' [(''hidden'', ''true'')]))
          (fmupd ''/home/sync/a.xml'' (regular (syncDoc ''a'' [])) fmempty)"

definition notHidden :: SearchCriteria where
  "notHidden = \<lparr>iType = NOT_EQUAL, iSubProfileName = [], iSubProfileType = [],
                iKey = ''hidden'', iValue = ''true''\<rparr>"

definition loadedSync :: "string \<Rightarrow> (string \<times> string) list \<Rightarrow> SyncProfile" where
  "loadedSync n ks = \<lparr>base = setLoaded (createProfile (syncDoc n ks)) True,
                       iLog = Some \<lparr>profileName = n, results = []\<rparr>\<rparr>"

definition criterion :: "Type \<Rightarrow> string \<Rightarrow> string \<Rightarrow> SearchCriteria" where
  "criterion t k v = \<lparr>iType = t, iSubProfileName = [], iSubProfileType = [], iKey = k, iValue = v\<rparr>"

text \<open>
  A reference cycle: \<^verbatim>\<open>parent\<close> (sync) refers to \<^verbatim>\<open>svc\<close> (service), whose file refers to \<^verbatim>\<open>st\<close>
  (storage), whose file refers back to \<^verbatim>\<open>svc\<close>; and the tree after each pass of the
  expander.
\<close>

definition profileDoc :: "string \<Rightarrow> string \<Rightarrow> (string \<times> string) list \<Rightarrow> (string \<times> string) list \<Rightarrow> element" where
  "profileDoc n t ks refs = Element ''profile'' [(''name'', n), (''type'', t)]
     (map (\<lambda>(k, v). Element ''key'' [(''name'', k), (''value'', v)] []) ks
      @ map (\<lambda>(rn, rt). Element ''profile'' [(''name'', rn), (''type'', rt)] []) refs)"

definition parentDoc :: element where
  "parentDoc = profileDoc ''parent'' ''sync'' [] [(''svc'', ''service'')]"

definition svcDoc :: element where
  "svcDoc = profileDoc ''svc'' ''service'' [(''endpoint'', ''http://h'')] [(''st'', ''storage'')]"

definition stDoc :: element where
  "stDoc = profileDoc ''st'' ''storage'' [(''path'', ''/data'')] [(''svc'', ''service'')]"

definition fsCycle :: filesystem where
  "fsCycle = fmupd ''/home/sync/parent.xml'' (regular parentDoc)
            (fmupd ''/home/service/svc.xml'' (regular svcDoc)
            (fmupd ''/home/storage/st.xml'' (regular stDoc) fmempty))"

definition reference :: "string \<Rightarrow> string \<Rightarrow> bool \<Rightarrow> profile" where
  "reference n t l = Profile n t Map.empty Map.empty [] l"

definition afterFirstPass :: profile where
  "afterFirstPass = Profile ''parent'' ''sync'' Map.empty Map.empty
     [Profile ''svc'' ''service'' [''endpoint'' \<mapsto> ''http://h''] Map.empty
        [reference ''st'' ''storage'' False] True] False"

definition afterSecondPass :: profile where
  "afterSecondPass = Profile ''parent'' ''sync'' Map.empty Map.empty
     [Profile ''svc'' ''service'' [''endpoint'' \<mapsto> ''http://h''] Map.empty
        [Profile ''st'' ''storage'' [''path'' \<mapsto> ''/data''] Map.empty [] True] True] False"

text \<open>The store of \<^verbatim>\<open>a\<close> and \<^verbatim>\<open>b\<close> with a log for \<^verbatim>\<open>a\<close> and a service profile among the sync files.\<close>

definition logDoc :: element where
  "logDoc = Element ''syncLog'' [(''profile'', ''a'')]
     [Element ''syncResults'' [(''majorcode'', ''0'')] []]"

definition fsLogged :: filesystem where
  "fsLogged = fmupd ''/home/sync/logs/a.log.xml'' (regular logDoc)
             (fmupd ''/home/sync/svc.xml'' (regular svcDoc) fsTwo)"

section \<open>Properties\<close>

subsection \<open>Evaluating the examples\<close>

lemma d0_paths [simp]: "iPrimaryPath d0 = ''/home''" "iSecondaryPath d0 = ''/etc''"
  by (simp_all add: d0_def newProfileManagerPrivate_def chopSeparator_def separator_def)

lemmas constant_defs = separator_def FORMAT_EXT_def BACKUP_EXT_def LOG_EXT_def
  LOG_DIRECTORY_def TYPE_SYNC_def KEY_PROTECTED_def BOOLEAN_TRUE_def

lemmas primitive_defs = QFile_exists_def QFile_remove_def QFile_copy_def QFile_rename_def
  open_ReadOnly_def open_WriteOnly_Truncate_def parseFile_def restoreBackupIfFound_def

lemmas op_defs = findProfileFile_def load_def remove_def rename_def

lemma load_keep:
  "load d0 fsKeep ''keep'' ''sync'' = (Some (createProfile (keepDoc ''v1'')), fsKeep)"
  by (simp add: op_defs primitive_defs constant_defs fsKeep_def regular_def Let_def)

lemma protected_keep: "isProtected (createProfile (keepDoc v))"
  by (simp add: keepDoc_def syncDoc_def isProtected_def key_def keysOf_def attribute_def
      constant_defs)

lemma fsKeepBackup_restored:
  "snd (load d0 fsKeepBackup ''keep'' ''sync'')
   = fmupd ''/home/sync/keep.xml'' (regular (keepDoc ''v0'')) fmempty"
  by (rule fmap_ext)
     (simp add: op_defs primitive_defs constant_defs fsKeep_def fsKeepBackup_def regular_def
        Let_def)

subsection \<open>Loading\<close>

lemma BACKUP_EXT_nonempty [simp]: "BACKUP_EXT \<noteq> []"
  by (simp add: BACKUP_EXT_def)

lemma backup_neq [simp]: "p @ BACKUP_EXT \<noteq> p" "p \<noteq> p @ BACKUP_EXT"
  by (simp_all add: BACKUP_EXT_def)

lemma parseFile_cong: "fmlookup fs' p = fmlookup fs p \<Longrightarrow> parseFile fs' p = parseFile fs p"
  by (simp add: parseFile_def QFile_exists_def open_ReadOnly_def)

lemma lookup_QFile_remove:
  "fmlookup (snd (QFile_remove fs p)) q = (if q = p then None else fmlookup fs q)"
  by (auto simp: QFile_remove_def QFile_exists_def)

lemma QFile_remove_absent: "\<not> QFile_exists fs p \<Longrightarrow> QFile_remove fs p = (False, fs)"
  by (simp add: QFile_remove_def)

lemma restoreBackup_absent:
  "\<not> QFile_exists fs b \<Longrightarrow> restoreBackupIfFound fs p b = fs"
  by (simp add: restoreBackupIfFound_def)

lemma restoreBackup_unparsable:
  "parseFile fs (p @ BACKUP_EXT) = None \<Longrightarrow>
   fmlookup (restoreBackupIfFound fs p (p @ BACKUP_EXT)) p = fmlookup fs p"
  by (simp add: restoreBackupIfFound_def lookup_QFile_remove)

text \<open>What load returns is what the resolved path holds when load is done.\<close>
lemma load_result:
  assumes "load d fs aName aType = (r, fs')"
  shows "r = map_option createProfile (parseFile fs' (findProfileFile d fs aName aType))"
proof -
  let ?p = "findProfileFile d fs aName aType"
  let ?fs1 = "restoreBackupIfFound fs ?p (?p @ BACKUP_EXT)"
  have "fmlookup fs' ?p = fmlookup ?fs1 ?p"
    using assms by (auto simp: load_def Let_def lookup_QFile_remove split: option.splits if_splits)
  then have "parseFile fs' ?p = parseFile ?fs1 ?p" by (rule parseFile_cong)
  then show ?thesis
    using assms by (auto simp: load_def Let_def split: option.splits)
qed

lemma load_no_backup:
  assumes "\<not> QFile_exists fs (findProfileFile d fs aName aType @ BACKUP_EXT)"
  shows "load d fs aName aType
         = (map_option createProfile (parseFile fs (findProfileFile d fs aName aType)), fs)"
  using assms by (auto simp: load_def Let_def restoreBackup_absent split: option.splits)

lemma lookup_QFile_copy:
  "q \<noteq> b \<Longrightarrow> fmlookup (snd (QFile_copy fs a b)) q = fmlookup fs q"
  by (auto simp: QFile_copy_def split: option.splits)

lemma load_frame:
  assumes "q \<noteq> findProfileFile d fs aName aType"
    and "q \<noteq> findProfileFile d fs aName aType @ BACKUP_EXT"
  shows "fmlookup (snd (load d fs aName aType)) q = fmlookup fs q"
proof -
  let ?p = "findProfileFile d fs aName aType"
  have "fmlookup (restoreBackupIfFound fs ?p (?p @ BACKUP_EXT)) q = fmlookup fs q"
    using assms
    by (simp add: restoreBackupIfFound_def Let_def lookup_QFile_copy lookup_QFile_remove
        split: option.splits)
  then show ?thesis
    using assms by (simp add: load_def Let_def lookup_QFile_remove split: option.splits)
qed

text \<open>
  Recovery. When the backup of the resolved profile file parses, \<open>load\<close> returns the profile
  of the backup; afterwards the profile file is the backup file as it was, and the backup
  is gone.
\<close>

theorem load_restores_backup:
  fixes d fs aName aType
  defines "profilePath \<equiv> findProfileFile d fs aName aType"
  assumes bak: "parseFile fs (profilePath @ BACKUP_EXT) = Some e"
  shows "fst (load d fs aName aType) = Some (createProfile e)
         \<and> fmlookup (snd (load d fs aName aType)) profilePath
             = fmlookup fs (profilePath @ BACKUP_EXT)
         \<and> \<not> QFile_exists (snd (load d fs aName aType)) (profilePath @ BACKUP_EXT)"
proof -
  let ?b = "profilePath @ BACKUP_EXT"
  from bak obtain f where f: "fmlookup fs ?b = Some f" "readable f" "body f = Xml e"
    by (auto simp: parseFile_def open_ReadOnly_def QFile_exists_def
        split: if_splits option.splits content.splits)
  let ?fs1 = "restoreBackupIfFound fs profilePath ?b"
  have fs1: "?fs1 = fmupd profilePath f (fmdrop profilePath fs)"
    using f bak
    by (auto simp: restoreBackupIfFound_def QFile_exists_def QFile_remove_def QFile_copy_def
        Let_def fmdrop_fmupd_same intro!: fmap_ext)
  have p: "parseFile ?fs1 profilePath = Some e"
    using f by (simp add: fs1 parseFile_def open_ReadOnly_def QFile_exists_def)
  have b: "QFile_exists ?fs1 ?b"
    using f by (simp add: fs1 QFile_exists_def)
  have l: "load d fs aName aType = (Some (createProfile e), snd (QFile_remove ?fs1 ?b))"
    using p b by (simp add: load_def Let_def profilePath_def[symmetric])
  show ?thesis
    using f by (simp add: l lookup_QFile_remove QFile_exists_def fs1)
qed

theorem load_restores_backup_witness:
  "parseFile fsKeepBackup (findProfileFile d0 fsKeepBackup ''keep'' ''sync'' @ BACKUP_EXT)
     = Some (keepDoc ''v0'')
   \<and> fst (load d0 fsKeepBackup ''keep'' ''sync'') = Some (createProfile (keepDoc ''v0''))
   \<and> fmlookup (snd (load d0 fsKeepBackup ''keep'' ''sync'')) ''/home/sync/keep.xml''
       = Some (regular (keepDoc ''v0''))
   \<and> \<not> QFile_exists (snd (load d0 fsKeepBackup ''keep'' ''sync'')) ''/home/sync/keep.xml.bak''"
proof -
  have r: "findProfileFile d0 fsKeepBackup ''keep'' ''sync'' = ''/home/sync/keep.xml''"
    by (simp add: op_defs primitive_defs constant_defs fsKeepBackup_def fsKeep_def Let_def)
  have b: "parseFile fsKeepBackup (findProfileFile d0 fsKeepBackup ''keep'' ''sync'' @ BACKUP_EXT)
     = Some (keepDoc ''v0'')"
    unfolding r
    by (simp add: primitive_defs constant_defs fsKeepBackup_def fsKeep_def regular_def)
  have k: "fmlookup fsKeepBackup ''/home/sync/keep.xml.bak'' = Some (regular (keepDoc ''v0''))"
    by (simp add: fsKeepBackup_def)
  from load_restores_backup[OF b] b show ?thesis
    by (simp add: r BACKUP_EXT_def k)
qed

lemma load_unparsable_backup:
  fixes d fs aName aType
  defines "p \<equiv> findProfileFile d fs aName aType"
  assumes ex: "QFile_exists fs (p @ BACKUP_EXT)" and un: "parseFile fs (p @ BACKUP_EXT) = None"
  shows "fst (load d fs aName aType) = map_option createProfile (parseFile fs p)"
    and "fmlookup (snd (load d fs aName aType)) p = fmlookup fs p"
    and "\<not> QFile_exists (snd (load d fs aName aType)) (p @ BACKUP_EXT)"
proof -
  let ?b = "p @ BACKUP_EXT"
  have fs1: "restoreBackupIfFound fs p ?b = snd (QFile_remove fs ?b)"
    using ex un by (simp add: restoreBackupIfFound_def)
  have same: "fmlookup (snd (QFile_remove fs ?b)) p = fmlookup fs p"
    by (simp add: lookup_QFile_remove)
  have gone: "\<not> QFile_exists (snd (QFile_remove fs ?b)) ?b"
    by (simp add: QFile_exists_def lookup_QFile_remove)
  have pf: "parseFile (snd (QFile_remove fs ?b)) p = parseFile fs p"
    using same by (rule parseFile_cong)
  have l: "load d fs aName aType
           = (map_option createProfile (parseFile fs p), snd (QFile_remove fs ?b))"
    using gone pf
    by (simp add: load_def Let_def p_def[symmetric] fs1 split: option.splits)
  show "fst (load d fs aName aType) = map_option createProfile (parseFile fs p)"
    by (simp add: l)
  show "fmlookup (snd (load d fs aName aType)) p = fmlookup fs p"
    by (simp add: l same)
  show "\<not> QFile_exists (snd (load d fs aName aType)) (p @ BACKUP_EXT)"
    by (simp add: l gone)
qed

subsection \<open>The resolver and the overlay\<close>

text \<open>
  C4, as amended. The resolver returns the primary path when that file exists, otherwise the
  secondary path when that file exists, otherwise the primary path. When both roots hold
  the file, \<open>load\<close> works on the primary path and its backup only, and every other file, the
  secondary one among them, stays as it is. What it returns is the content of the primary
  file as found when no backup of it is pending (then no file changes) and when the pending
  backup does not parse (then the backup is deleted); \<open>None\<close> stands for a file that does not
  open or parse. When the pending backup parses, \<open>load\<close> returns the content of the backup,
  the primary file becomes the backup file, and the backup is gone.
\<close>

theorem resolver_precedence:
  fixes d fs aName aType
  defines "primaryPath \<equiv> iPrimaryPath d @ separator @ aType @ separator @ aName @ FORMAT_EXT"
    and "secondaryPath \<equiv> iSecondaryPath d @ separator @ aType @ separator @ aName @ FORMAT_EXT"
  shows "findProfileFile d fs aName aType =
           (if QFile_exists fs primaryPath then primaryPath
            else if QFile_exists fs secondaryPath then secondaryPath
            else primaryPath)
         \<and> (QFile_exists fs primaryPath \<and> QFile_exists fs secondaryPath \<longrightarrow>
              (\<not> QFile_exists fs (primaryPath @ BACKUP_EXT) \<longrightarrow>
                 load d fs aName aType
                   = (map_option createProfile (parseFile fs primaryPath), fs))
              \<and> (QFile_exists fs (primaryPath @ BACKUP_EXT)
                  \<and> parseFile fs (primaryPath @ BACKUP_EXT) = None \<longrightarrow>
                    fst (load d fs aName aType)
                      = map_option createProfile (parseFile fs primaryPath)
                    \<and> fmlookup (snd (load d fs aName aType)) primaryPath
                        = fmlookup fs primaryPath
                    \<and> \<not> QFile_exists (snd (load d fs aName aType)) (primaryPath @ BACKUP_EXT))
              \<and> (\<forall>e. parseFile fs (primaryPath @ BACKUP_EXT) = Some e \<longrightarrow>
                    fst (load d fs aName aType) = Some (createProfile e)
                    \<and> fmlookup (snd (load d fs aName aType)) primaryPath
                        = fmlookup fs (primaryPath @ BACKUP_EXT)
                    \<and> \<not> QFile_exists (snd (load d fs aName aType)) (primaryPath @ BACKUP_EXT))
              \<and> (\<forall>q. q \<noteq> primaryPath \<and> q \<noteq> primaryPath @ BACKUP_EXT \<longrightarrow>
                    fmlookup (snd (load d fs aName aType)) q = fmlookup fs q))"
proof -
  have res: "findProfileFile d fs aName aType =
           (if QFile_exists fs primaryPath then primaryPath
            else if QFile_exists fs secondaryPath then secondaryPath
            else primaryPath)"
    by (simp add: findProfileFile_def Let_def primaryPath_def secondaryPath_def)
  have rest: "(\<not> QFile_exists fs (primaryPath @ BACKUP_EXT) \<longrightarrow>
                 load d fs aName aType
                   = (map_option createProfile (parseFile fs primaryPath), fs))
              \<and> (QFile_exists fs (primaryPath @ BACKUP_EXT)
                  \<and> parseFile fs (primaryPath @ BACKUP_EXT) = None \<longrightarrow>
                    fst (load d fs aName aType)
                      = map_option createProfile (parseFile fs primaryPath)
                    \<and> fmlookup (snd (load d fs aName aType)) primaryPath
                        = fmlookup fs primaryPath
                    \<and> \<not> QFile_exists (snd (load d fs aName aType)) (primaryPath @ BACKUP_EXT))
              \<and> (\<forall>e. parseFile fs (primaryPath @ BACKUP_EXT) = Some e \<longrightarrow>
                    fst (load d fs aName aType) = Some (createProfile e)
                    \<and> fmlookup (snd (load d fs aName aType)) primaryPath
                        = fmlookup fs (primaryPath @ BACKUP_EXT)
                    \<and> \<not> QFile_exists (snd (load d fs aName aType)) (primaryPath @ BACKUP_EXT))
              \<and> (\<forall>q. q \<noteq> primaryPath \<and> q \<noteq> primaryPath @ BACKUP_EXT \<longrightarrow>
                    fmlookup (snd (load d fs aName aType)) q = fmlookup fs q)"
    if ex: "QFile_exists fs primaryPath"
  proof -
    from res ex have r: "findProfileFile d fs aName aType = primaryPath" by simp
    show ?thesis
      using load_no_backup[of fs d aName aType] load_unparsable_backup[of fs d aName aType]
        load_restores_backup[of fs d aName aType] load_frame[of _ d fs aName aType]
      unfolding r by blast
  qed
  from res rest show ?thesis by blast
qed

lemma fsBoth_paths:
  "findProfileFile d0 fsBoth ''foo'' ''sync'' = ''/home/sync/foo.xml''"
  "findProfileFile d0 fsBothBackup ''foo'' ''sync'' = ''/home/sync/foo.xml''"
  "findProfileFile d0 fsBothGarbage ''foo'' ''sync'' = ''/home/sync/foo.xml''"
  by (simp_all add: findProfileFile_def QFile_exists_def constant_defs fsBoth_def
      fsBothBackup_def fsBothGarbage_def Let_def)

theorem resolver_precedence_witness:
  "QFile_exists fsBoth ''/home/sync/foo.xml'' \<and> QFile_exists fsBoth ''/etc/sync/foo.xml''
   \<and> findProfileFile d0 fsBoth ''foo'' ''sync'' = ''/home/sync/foo.xml''
   \<and> load d0 fsBoth ''foo'' ''sync''
       = (Some (createProfile (syncDoc ''foo'' [(''owner'', ''user'')])), fsBoth)
   \<and> key (createProfile (syncDoc ''foo'' [(''owner'', ''user'')])) ''owner'' = Some ''user''
   \<and> QFile_exists fsBothGarbage ''/home/sync/foo.xml''
   \<and> QFile_exists fsBothGarbage ''/etc/sync/foo.xml''
   \<and> QFile_exists fsBothGarbage ''/home/sync/foo.xml.bak''
   \<and> parseFile fsBothGarbage ''/home/sync/foo.xml.bak'' = None
   \<and> fst (load d0 fsBothGarbage ''foo'' ''sync'')
       = Some (createProfile (syncDoc ''foo'' [(''owner'', ''user'')]))
   \<and> \<not> QFile_exists (snd (load d0 fsBothGarbage ''foo'' ''sync'')) ''/home/sync/foo.xml.bak''
   \<and> QFile_exists fsBothBackup ''/home/sync/foo.xml''
   \<and> QFile_exists fsBothBackup ''/etc/sync/foo.xml''
   \<and> parseFile fsBothBackup ''/home/sync/foo.xml.bak''
       = Some (syncDoc ''foo'' [(''owner'', ''old'')])
   \<and> fst (load d0 fsBothBackup ''foo'' ''sync'')
       = Some (createProfile (syncDoc ''foo'' [(''owner'', ''old'')]))
   \<and> fmlookup (snd (load d0 fsBothBackup ''foo'' ''sync'')) ''/home/sync/foo.xml''
       = Some (regular (syncDoc ''foo'' [(''owner'', ''old'')]))
   \<and> fmlookup (snd (load d0 fsBothBackup ''foo'' ''sync'')) ''/etc/sync/foo.xml''
       = Some (regular (syncDoc ''foo'' [(''owner'', ''system'')]))"
proof -
  have e: "QFile_exists fsBoth ''/home/sync/foo.xml''" "QFile_exists fsBoth ''/etc/sync/foo.xml''"
    "\<not> QFile_exists fsBoth ''/home/sync/foo.xml.bak''"
    "QFile_exists fsBothGarbage ''/home/sync/foo.xml''"
    "QFile_exists fsBothGarbage ''/etc/sync/foo.xml''"
    "QFile_exists fsBothGarbage ''/home/sync/foo.xml.bak''"
    "QFile_exists fsBothBackup ''/home/sync/foo.xml''"
    "QFile_exists fsBothBackup ''/etc/sync/foo.xml''"
    by (simp_all add: QFile_exists_def fsBoth_def fsBothGarbage_def fsBothBackup_def)
  have p: "parseFile fsBoth ''/home/sync/foo.xml'' = Some (syncDoc ''foo'' [(''owner'', ''user'')])"
    "parseFile fsBothGarbage ''/home/sync/foo.xml'' = Some (syncDoc ''foo'' [(''owner'', ''user'')])"
    "parseFile fsBothGarbage ''/home/sync/foo.xml.bak'' = None"
    "parseFile fsBothBackup ''/home/sync/foo.xml.bak'' = Some (syncDoc ''foo'' [(''owner'', ''old'')])"
    by (simp_all add: primitive_defs fsBoth_def fsBothGarbage_def fsBothBackup_def regular_def)
  have k: "key (createProfile (syncDoc ''foo'' [(''owner'', ''user'')])) ''owner'' = Some ''user''"
    by (simp add: syncDoc_def key_def keysOf_def attribute_def)
  have l: "fmlookup fsBothBackup ''/home/sync/foo.xml.bak''
             = Some (regular (syncDoc ''foo'' [(''owner'', ''old'')]))"
    "fmlookup fsBothBackup ''/etc/sync/foo.xml''
             = Some (regular (syncDoc ''foo'' [(''owner'', ''system'')]))"
    by (simp_all add: fsBothBackup_def fsBoth_def)
  have paths: "iPrimaryPath d0 @ separator @ ''sync'' @ separator @ ''foo'' @ FORMAT_EXT
               = ''/home/sync/foo.xml''"
    "iSecondaryPath d0 @ separator @ ''sync'' @ separator @ ''foo'' @ FORMAT_EXT
               = ''/etc/sync/foo.xml''"
    "''/home/sync/foo.xml'' @ BACKUP_EXT = ''/home/sync/foo.xml.bak''"
    by (simp_all add: constant_defs)
  note a = resolver_precedence[of d0 fsBoth "''foo''" "''sync''", unfolded paths]
  note g = resolver_precedence[of d0 fsBothGarbage "''foo''" "''sync''", unfolded paths]
  note b = resolver_precedence[of d0 fsBothBackup "''foo''" "''sync''", unfolded paths]
  from a e have a1: "findProfileFile d0 fsBoth ''foo'' ''sync'' = ''/home/sync/foo.xml''"
    and a2: "load d0 fsBoth ''foo'' ''sync''
       = (Some (createProfile (syncDoc ''foo'' [(''owner'', ''user'')])), fsBoth)"
    by (simp_all add: p)
  from g e p have g1: "fst (load d0 fsBothGarbage ''foo'' ''sync'')
       = Some (createProfile (syncDoc ''foo'' [(''owner'', ''user'')]))"
    and g2: "\<not> QFile_exists (snd (load d0 fsBothGarbage ''foo'' ''sync'')) ''/home/sync/foo.xml.bak''"
    by simp_all
  from b e p have b1: "fst (load d0 fsBothBackup ''foo'' ''sync'')
       = Some (createProfile (syncDoc ''foo'' [(''owner'', ''old'')]))"
    and b2: "fmlookup (snd (load d0 fsBothBackup ''foo'' ''sync'')) ''/home/sync/foo.xml''
       = fmlookup fsBothBackup ''/home/sync/foo.xml.bak''"
    and b3: "fmlookup (snd (load d0 fsBothBackup ''foo'' ''sync'')) ''/etc/sync/foo.xml''
       = fmlookup fsBothBackup ''/etc/sync/foo.xml''"
    by simp_all
  from e p k a1 a2 g1 g2 b1 b2 b3 l show ?thesis by simp
qed

text \<open>
  The claim as stated fails when a backup that parses is pending: both roots hold \<^verbatim>\<open>foo\<close>, the
  primary file says \<^verbatim>\<open>owner = user\<close>, and \<open>load\<close> returns the profile of the backup, with
  \<^verbatim>\<open>owner = old\<close>.
\<close>

theorem load_returns_pending_backup:
  "QFile_exists fsBothBackup ''/home/sync/foo.xml''
   \<and> QFile_exists fsBothBackup ''/etc/sync/foo.xml''
   \<and> fmlookup fsBothBackup ''/home/sync/foo.xml''
       = Some (regular (syncDoc ''foo'' [(''owner'', ''user'')]))
   \<and> key (createProfile (syncDoc ''foo'' [(''owner'', ''user'')])) ''owner'' = Some ''user''
   \<and> fst (load d0 fsBothBackup ''foo'' ''sync'')
       = Some (createProfile (syncDoc ''foo'' [(''owner'', ''old'')]))
   \<and> key (createProfile (syncDoc ''foo'' [(''owner'', ''old'')])) ''owner'' = Some ''old''
   \<and> fst (load d0 fsBothBackup ''foo'' ''sync'')
       \<noteq> Some (createProfile (syncDoc ''foo'' [(''owner'', ''user'')]))"
proof -
  have l: "fst (load d0 fsBothBackup ''foo'' ''sync'')
       = Some (createProfile (syncDoc ''foo'' [(''owner'', ''old'')]))"
    by (simp add: op_defs primitive_defs constant_defs fsBothBackup_def fsBoth_def regular_def
        Let_def)
  have k: "key (createProfile (syncDoc ''foo'' [(''owner'', ''user'')])) ''owner'' = Some ''user''"
    "key (createProfile (syncDoc ''foo'' [(''owner'', ''old'')])) ''owner'' = Some ''old''"
    by (simp_all add: syncDoc_def key_def keysOf_def attribute_def)
  have ne: "createProfile (syncDoc ''foo'' [(''owner'', ''old'')])
            \<noteq> createProfile (syncDoc ''foo'' [(''owner'', ''user'')])"
  proof
    assume "createProfile (syncDoc ''foo'' [(''owner'', ''old'')])
            = createProfile (syncDoc ''foo'' [(''owner'', ''user'')])"
    then have "key (createProfile (syncDoc ''foo'' [(''owner'', ''old'')])) ''owner''
               = key (createProfile (syncDoc ''foo'' [(''owner'', ''user'')])) ''owner''"
      by (rule arg_cong)
    with k show False by simp
  qed
  have f: "QFile_exists fsBothBackup ''/home/sync/foo.xml''"
    "QFile_exists fsBothBackup ''/etc/sync/foo.xml''"
    "fmlookup fsBothBackup ''/home/sync/foo.xml''
       = Some (regular (syncDoc ''foo'' [(''owner'', ''user'')]))"
    by (simp_all add: QFile_exists_def fsBothBackup_def fsBoth_def)
  from l k ne f show ?thesis by simp
qed

subsection \<open>Removing a protected profile\<close>

text \<open>
  C3, as amended. When the profile that \<open>remove\<close> loads is protected, \<open>remove\<close> returns false
  and deletes no profile file: the file system is the one \<open>load\<close> left, the resolved profile
  file is still there and holds the profile that was loaded. The file is unchanged when
  no backup of it parses, and nothing at all changes when no backup exists. (When a backup
  parses, \<open>load\<close> has restored the profile file from it: see the counterexample.)
\<close>

theorem remove_protected:
  assumes ld: "load d fs aName aType = (Some P, fs1)"
    and prot: "isProtected P"
  shows "remove d fs aName aType = (False, fs1)
         \<and> map_option createProfile (parseFile fs1 (findProfileFile d fs aName aType)) = Some P
         \<and> (parseFile fs (findProfileFile d fs aName aType @ BACKUP_EXT) = None \<longrightarrow>
              fmlookup fs1 (findProfileFile d fs aName aType)
                = fmlookup fs (findProfileFile d fs aName aType))
         \<and> (\<not> QFile_exists fs (findProfileFile d fs aName aType @ BACKUP_EXT) \<longrightarrow> fs1 = fs)"
proof -
  let ?p = "findProfileFile d fs aName aType"
  have 1: "remove d fs aName aType = (False, fs1)"
    using ld prot by (simp add: remove_def Let_def)
  have 2: "map_option createProfile (parseFile fs1 ?p) = Some P"
    using load_result[OF ld] by simp
  have 3: "fmlookup fs1 ?p = fmlookup fs ?p" if "parseFile fs (?p @ BACKUP_EXT) = None"
    using ld restoreBackup_unparsable[OF that]
    by (auto simp: load_def Let_def lookup_QFile_remove split: option.splits if_splits)
  have 4: "fs1 = fs" if "\<not> QFile_exists fs (?p @ BACKUP_EXT)"
    using ld load_no_backup[OF that] by simp
  from 1 2 3 4 show ?thesis by blast
qed

theorem remove_protected_witness:
  "load d0 fsKeep ''keep'' ''sync'' = (Some (createProfile (keepDoc ''v1'')), fsKeep)
   \<and> isProtected (createProfile (keepDoc ''v1''))
   \<and> remove d0 fsKeep ''keep'' ''sync'' = (False, fsKeep)
   \<and> QFile_exists fsKeep ''/home/sync/keep.xml''"
proof -
  have e: "QFile_exists fsKeep ''/home/sync/keep.xml''"
    by (simp add: QFile_exists_def fsKeep_def)
  from remove_protected[OF load_keep protected_keep]
  have "remove d0 fsKeep ''keep'' ''sync'' = (False, fsKeep)" by blast
  with load_keep protected_keep e show ?thesis by simp
qed

text \<open>
  The claim as stated fails when a backup is pending: the protected profile \<^verbatim>\<open>keep\<close> has the
  key \<^verbatim>\<open>k = v1\<close> on disk and a backup with \<^verbatim>\<open>k = v0\<close>; \<open>remove\<close> returns false, and the profile
  file now holds the backup's content.
\<close>

theorem remove_protected_changes_file:
  "fst (load d0 fsKeepBackup ''keep'' ''sync'') = Some (createProfile (keepDoc ''v0''))
   \<and> isProtected (createProfile (keepDoc ''v0''))
   \<and> isProtected (createProfile (keepDoc ''v1''))
   \<and> fst (remove d0 fsKeepBackup ''keep'' ''sync'') = False
   \<and> fmlookup fsKeepBackup ''/home/sync/keep.xml'' = Some (regular (keepDoc ''v1''))
   \<and> fmlookup (snd (remove d0 fsKeepBackup ''keep'' ''sync'')) ''/home/sync/keep.xml''
       = Some (regular (keepDoc ''v0''))
   \<and> regular (keepDoc ''v0'') \<noteq> regular (keepDoc ''v1'')"
proof -
  have l: "fst (load d0 fsKeepBackup ''keep'' ''sync'') = Some (createProfile (keepDoc ''v0''))"
    by (simp add: op_defs primitive_defs constant_defs fsKeep_def fsKeepBackup_def regular_def
        Let_def)
  then have r: "remove d0 fsKeepBackup ''keep'' ''sync''
             = (False, snd (load d0 fsKeepBackup ''keep'' ''sync''))"
    using protected_keep[of "''v0''"]
    by (cases "load d0 fsKeepBackup ''keep'' ''sync''") (simp add: remove_def Let_def)
  show ?thesis
    using l protected_keep
    by (simp add: r fsKeepBackup_restored)
       (simp add: fsKeepBackup_def fsKeep_def keepDoc_def syncDoc_def regular_def)
qed

subsection \<open>Renaming a profile that has no log\<close>



lemma plain_name_not_log_path:
  "CHR ''/'' \<notin> set aNewName \<Longrightarrow> aNewName \<noteq> LOG_DIRECTORY @ separator @ aName @ LOG_EXT"
  by (auto simp: separator_def)





subsection \<open>Saving\<close>

lemma createProfile_syncDoc [simp]:
  "name (createProfile (syncDoc n ks)) = n" "ptype (createProfile (syncDoc n ks)) = ''sync''"
  "subProfiles (createProfile (syncDoc n ks)) = []" "\<not> isLoaded (createProfile (syncDoc n ks))"
  by (auto simp: syncDoc_def attribute_def filter_empty_conv)

text \<open>
  C1, on the code. \<open>save\<close> asks the resolver for (type, name) where the resolver takes
  (name, type), so the file it backs up is \<^verbatim>\<open><root>/<name>/<type>.xml\<close>. The current file of
  the profile \<^verbatim>\<open>foo\<close> exists and cannot be written: \<open>save\<close> fails and has made no backup. With
  a file \<^verbatim>\<open>/home/foo/sync.xml\<close> in the store, the backup that the failed \<open>save\<close> leaves at
  \<^verbatim>\<open>/home/sync/foo.xml.bak\<close> is a copy of that other profile.
\<close>

theorem save_makes_no_backup:
  "findProfileFile d0 fsFooReadOnly ''foo'' ''sync'' = ''/home/sync/foo.xml''
   \<and> QFile_exists fsFooReadOnly ''/home/sync/foo.xml''
   \<and> save (\<lambda>p. Some fooNew) d0 fsFooReadOnly (createProfile fooNew) = (False, fsFooReadOnly)
   \<and> \<not> QFile_exists fsFooReadOnly ''/home/sync/foo.xml.bak''
   \<and> save (\<lambda>p. Some fooNew) d0 fsFooSwapped (createProfile fooNew)
       = (False, fmupd ''/home/sync/foo.xml.bak''
                   (regular (Element ''profile'' [(''name'', ''sync''), (''type'', ''foo'')] []))
                   fsFooSwapped)"
  by (simp add: save_def constructProfileDocument_def createBackup_def writeProfileFile_def
      fooNew_def op_defs primitive_defs constant_defs fsFooReadOnly_def fsFooSwapped_def
      readOnly_def regular_def Let_def)

text \<open>
  A save that can write. When \<open>toXml\<close> gives a document and the target file is absent or
  writable, \<open>save\<close> returns true; afterwards the target holds the document and there is no
  backup next to it.
\<close>

theorem save_writes_and_clears_backup:
  fixes toXml d fs aProfile
  defines "profilePath \<equiv> iPrimaryPath d @ separator @ ptype aProfile @ separator
                             @ name aProfile @ FORMAT_EXT"
  assumes doc: "toXml aProfile = Some doc"
    and w: "\<forall>f. fmlookup fs profilePath = Some f \<longrightarrow> writable f"
  shows "fst (save toXml d fs aProfile) = True
         \<and> map_option body (fmlookup (snd (save toXml d fs aProfile)) profilePath)
             = Some (Xml doc)
         \<and> \<not> QFile_exists (snd (save toXml d fs aProfile)) (profilePath @ BACKUP_EXT)"
proof -
  let ?old = "findProfileFile d fs (ptype aProfile) (name aProfile)"
  let ?b = "profilePath @ BACKUP_EXT"
  let ?fs1 = "if QFile_exists fs ?old then snd (createBackup fs ?old ?b) else fs"
  have same: "fmlookup ?fs1 profilePath = fmlookup fs profilePath"
    by (auto simp: createBackup_def QFile_copy_def split: option.splits)
  obtain fs2 where wr: "writeProfileFile ?fs1 profilePath doc = (True, fs2)"
    and body: "\<exists>f. fmlookup fs2 profilePath = Some f \<and> body f = Xml doc"
    using w same
    by (cases "fmlookup fs profilePath")
       (auto simp: writeProfileFile_def open_WriteOnly_Truncate_def)
  have s: "save toXml d fs aProfile = (True, snd (QFile_remove fs2 ?b))"
    using doc wr
    by (simp add: save_def constructProfileDocument_def Let_def profilePath_def[symmetric])
  show ?thesis
    using body
    by (auto simp: s QFile_exists_def lookup_QFile_remove)
qed

theorem save_writes_and_clears_backup_witness:
  "fst (save (\<lambda>p. Some fooNew) d0 fsFoo (createProfile fooNew)) = True
   \<and> map_option body
         (fmlookup (snd (save (\<lambda>p. Some fooNew) d0 fsFoo (createProfile fooNew)))
            ''/home/sync/foo.xml'') = Some (Xml fooNew)
   \<and> \<not> QFile_exists (snd (save (\<lambda>p. Some fooNew) d0 fsFoo (createProfile fooNew)))
         ''/home/sync/foo.xml.bak''"
proof -
  have w: "\<forall>f. fmlookup fsFoo (iPrimaryPath d0 @ separator @ ptype (createProfile fooNew)
                   @ separator @ name (createProfile fooNew) @ FORMAT_EXT) = Some f
               \<longrightarrow> writable f"
    by (simp add: fooNew_def constant_defs fsFoo_def regular_def)
  from save_writes_and_clears_backup[of "\<lambda>p. Some fooNew" "createProfile fooNew" fooNew fsFoo d0,
      OF refl w]
  show ?thesis
    by (simp add: fooNew_def constant_defs)
qed

subsection \<open>Removing\<close>

text \<open>
  C2, on the code. The profile \<^verbatim>\<open>foo\<close> is not protected and has no log: \<open>remove\<close> deletes the
  profile file and returns false, the result of removing the log file.
\<close>

theorem remove_without_log_returns_false:
  "QFile_exists fsFoo ''/home/sync/foo.xml''
   \<and> \<not> isProtected (createProfile (syncDoc ''foo'' []))
   \<and> remove d0 fsFoo ''foo'' ''sync'' = (False, fmempty)"
  apply (simp add: op_defs primitive_defs constant_defs fsFoo_def regular_def Let_def
      isProtected_def key_def)
  apply (simp add: syncDoc_def keysOf_def fmdrop_fmupd_same)
  done

subsection \<open>Searching\<close>

lemma matchedAll_iff: "matchedAll p cs \<longleftrightarrow> (\<forall>c \<in> set cs. matchProfile (base p) c)"
  by (induction cs) auto

lemma set_matchingProfiles:
  "set (matchingProfiles ps cs) = {p \<in> set ps. matchedAll p cs}"
  by (induction ps) auto

lemma isLoaded_setLoaded [simp]: "isLoaded (setLoaded p b) = b"
  by (simp add: setLoaded_def)

lemma expand_isLoaded: "expand d fs p = (fs', p') \<Longrightarrow> isLoaded p'"
  by (auto simp: expand_def Let_def split: if_splits prod.splits)

lemma expand_loaded: "isLoaded p \<Longrightarrow> expand d fs p = (fs, p)"
  by (simp add: expand_def)

lemma expand_twice: "expand d fs p = (fs', p') \<Longrightarrow> expand d fs' p' = (fs', p')"
  by (simp add: expand_loaded expand_isLoaded)

lemma expand_without_subProfiles:
  "subProfiles p = [] \<Longrightarrow> \<not> isLoaded p \<Longrightarrow> expand d fs p = (fs, setLoaded p True)"
  by (simp add: expand_def allSubProfiles_def expand_loop.simps)

lemma load_fsTwo:
  "load d0 fsTwo ''a'' ''sync'' = (Some (createProfile (syncDoc ''a'' [])), fsTwo)"
  "load d0 fsTwo ''b'' ''sync'' = (Some (createProfile (syncDoc ''b'' [(''hidden'', ''true'')])), fsTwo)"
  by (simp_all add: op_defs primitive_defs constant_defs fsTwo_def regular_def Let_def)

lemma loadLog_fsTwo: "loadLog d0 fsTwo n = None"
  by (simp add: loadLog_def primitive_defs constant_defs fsTwo_def Let_def)

lemma syncProfile_fsTwo:
  "syncProfile d0 fsTwo ''a'' = (Some (loadedSync ''a'' []), fsTwo)"
  "syncProfile d0 fsTwo ''b'' = (Some (loadedSync ''b'' [(''hidden'', ''true'')]), fsTwo)"
  by (simp_all add: syncProfile_def profile_def load_fsTwo TYPE_SYNC_def expand_without_subProfiles
      loadLog_fsTwo asSyncProfile_def newSyncLog_def loadedSync_def)

lemma allSyncProfiles_fsTwo:
  "allSyncProfiles d0 fsTwo
   = ([loadedSync ''a'' [], loadedSync ''b'' [(''hidden'', ''true'')]], fsTwo)"
proof -
  have "profileNames d0 fsTwo ''sync'' = [''a'', ''b'']"
    by (simp add: profileNames_def entryBaseNames_def fsTwo_def Let_def separator_def
        matchesFormatFilter_def)
  then show ?thesis
    by (simp add: allSyncProfiles_def TYPE_SYNC_def syncProfile_fsTwo)
qed

lemma match_fsTwo:
  "matchProfile (base (loadedSync ''a'' [])) notHidden"
  "\<not> matchProfile (base (loadedSync ''b'' [(''hidden'', ''true'')])) notHidden"
  by (simp_all add: matchProfile_def matchKey_def notHidden_def loadedSync_def key_def
      setLoaded_def syncDoc_def keysOf_def attribute_def)

text \<open>
  C5. A sync profile is in the result of \<open>getSyncProfilesByData\<close> for a list of criteria
  exactly when \<open>allSyncProfiles\<close> lists it and \<open>matchProfile\<close> holds of it for every criterion
  of the list.
\<close>

theorem getSyncProfilesByData_and:
  "P \<in> set (fst (getSyncProfilesByData d fs C))
   \<longleftrightarrow> P \<in> set (fst (allSyncProfiles d fs)) \<and> (\<forall>c \<in> set C. matchProfile (base P) c)"
  by (simp add: getSyncProfilesByData_def set_matchingProfiles matchedAll_iff split: prod.splits)

theorem getSyncProfilesByData_and_witness:
  "loadedSync ''a'' [] \<in> set (fst (allSyncProfiles d0 fsTwo))
   \<and> matchProfile (base (loadedSync ''a'' [])) notHidden
   \<and> loadedSync ''a'' [] \<in> set (fst (getSyncProfilesByData d0 fsTwo [notHidden]))
   \<and> loadedSync ''b'' [(''hidden'', ''true'')] \<in> set (fst (allSyncProfiles d0 fsTwo))
   \<and> \<not> matchProfile (base (loadedSync ''b'' [(''hidden'', ''true'')])) notHidden
   \<and> loadedSync ''b'' [(''hidden'', ''true'')]
       \<notin> set (fst (getSyncProfilesByData d0 fsTwo [notHidden]))"
  using getSyncProfilesByData_and[of "loadedSync ''a'' []" d0 fsTwo "[notHidden]"]
    getSyncProfilesByData_and[of "loadedSync ''b'' [(''hidden'', ''true'')]" d0 fsTwo "[notHidden]"]
  by (simp add: allSyncProfiles_fsTwo match_fsTwo)

text \<open>
  C6. The key test. With an empty key the criterion matches exactly when its type is not
  \<open>NOT_EXISTS\<close>. Otherwise, when the profile has no value for the key, it matches exactly
  when the type is \<open>NOT_EXISTS\<close> or \<open>NOT_EQUAL\<close>; when the profile has the value \<open>v\<close>, \<open>EXISTS\<close>
  matches, \<open>NOT_EXISTS\<close> does not, \<open>EQUAL\<close> matches exactly when \<open>v\<close> is the criterion's value
  and \<open>NOT_EQUAL\<close> exactly when it is not.
\<close>

theorem matchKey_cases:
  "(iKey c = [] \<longrightarrow> (matchKey p c \<longleftrightarrow> iType c \<noteq> NOT_EXISTS))
   \<and> (iKey c \<noteq> [] \<and> key p (iKey c) = None \<longrightarrow>
        (matchKey p c \<longleftrightarrow> iType c = NOT_EXISTS \<or> iType c = NOT_EQUAL))
   \<and> (iKey c \<noteq> [] \<and> key p (iKey c) = Some v \<longrightarrow>
        (iType c = EXISTS \<longrightarrow> matchKey p c)
        \<and> (iType c = NOT_EXISTS \<longrightarrow> \<not> matchKey p c)
        \<and> (iType c = EQUAL \<longrightarrow> (matchKey p c \<longleftrightarrow> v = iValue c))
        \<and> (iType c = NOT_EQUAL \<longrightarrow> (matchKey p c \<longleftrightarrow> v \<noteq> iValue c)))"
  by (cases "iType c") (simp_all add: matchKey_def)

theorem matchKey_cases_witness:
  "matchKey (createProfile (keepDoc ''v1'')) (criterion EXISTS [] [])
   \<and> \<not> matchKey (createProfile (keepDoc ''v1'')) (criterion NOT_EXISTS [] [])
   \<and> key (createProfile (keepDoc ''v1'')) ''zz'' = None
   \<and> matchKey (createProfile (keepDoc ''v1'')) (criterion NOT_EQUAL ''zz'' ''x'')
   \<and> \<not> matchKey (createProfile (keepDoc ''v1'')) (criterion EQUAL ''zz'' ''x'')
   \<and> key (createProfile (keepDoc ''v1'')) ''k'' = Some ''v1''
   \<and> matchKey (createProfile (keepDoc ''v1'')) (criterion EXISTS ''k'' [])
   \<and> \<not> matchKey (createProfile (keepDoc ''v1'')) (criterion NOT_EXISTS ''k'' [])
   \<and> matchKey (createProfile (keepDoc ''v1'')) (criterion EQUAL ''k'' ''v1'')
   \<and> \<not> matchKey (createProfile (keepDoc ''v1'')) (criterion EQUAL ''k'' ''v0'')
   \<and> matchKey (createProfile (keepDoc ''v1'')) (criterion NOT_EQUAL ''k'' ''v0'')
   \<and> \<not> matchKey (createProfile (keepDoc ''v1'')) (criterion NOT_EQUAL ''k'' ''v1'')"
proof -
  let ?p = "createProfile (keepDoc ''v1'')"
  have kz: "key ?p ''zz'' = None" and kk: "key ?p ''k'' = Some ''v1''"
    by (simp_all add: keepDoc_def syncDoc_def key_def keysOf_def attribute_def)
  show ?thesis
    using matchKey_cases[of "criterion EXISTS [] []" ?p]
      matchKey_cases[of "criterion NOT_EXISTS [] []" ?p]
      matchKey_cases[of "criterion NOT_EQUAL ''zz'' ''x''" ?p]
      matchKey_cases[of "criterion EQUAL ''zz'' ''x''" ?p]
      matchKey_cases[of "criterion EXISTS ''k'' []" ?p "''v1''"]
      matchKey_cases[of "criterion NOT_EXISTS ''k'' []" ?p "''v1''"]
      matchKey_cases[of "criterion EQUAL ''k'' ''v1''" ?p "''v1''"]
      matchKey_cases[of "criterion EQUAL ''k'' ''v0''" ?p "''v1''"]
      matchKey_cases[of "criterion NOT_EQUAL ''k'' ''v0''" ?p "''v1''"]
      matchKey_cases[of "criterion NOT_EQUAL ''k'' ''v1''" ?p "''v1''"]
    by (simp add: kz kk criterion_def)
qed

subsection \<open>Sync profiles\<close>

lemma syncProfile_sync:
  assumes "profile d fs aName TYPE_SYNC = (Some p, fs1)" "ptype p = TYPE_SYNC"
  shows "syncProfile d fs aName
        = (Some \<lparr>base = snd (expand d fs1 p),
                 iLog = Some (case loadLog d (fst (expand d fs1 p)) aName of
                                None \<Rightarrow> newSyncLog aName | Some l \<Rightarrow> l)\<rparr>,
           fst (expand d fs1 p))"
proof -
  obtain fs2 p' where e: "expand d fs1 p = (fs2, p')" by (cases "expand d fs1 p")
  show ?thesis
    using assms e by (simp add: syncProfile_def asSyncProfile_def Let_def)
qed

lemma syncProfile_other:
  assumes "profile d fs aName TYPE_SYNC = (Some p, fs1)" "ptype p \<noteq> TYPE_SYNC"
  shows "syncProfile d fs aName = (None, fs1)"
  using assms by (simp add: syncProfile_def)

lemma syncProfile_none:
  assumes "profile d fs aName TYPE_SYNC = (None, fs1)"
  shows "syncProfile d fs aName = (None, fs1)"
  using assms by (simp add: syncProfile_def)

text \<open>
  C7. \<open>syncProfile\<close> loads the profile with the type \<^verbatim>\<open>sync\<close>. When the loaded profile declares
  the type \<^verbatim>\<open>sync\<close>, the result is the expanded profile with a log: the log that \<open>loadLog\<close>
  finds, or else the empty log that carries only the profile name. When it declares another
  type, or nothing was loaded, the result is null.
\<close>

theorem syncProfile_cases:
  "(\<forall>p fs1. profile d fs aName TYPE_SYNC = (Some p, fs1) \<and> ptype p = TYPE_SYNC \<longrightarrow>
      syncProfile d fs aName
        = (Some \<lparr>base = snd (expand d fs1 p),
                 iLog = Some (case loadLog d (fst (expand d fs1 p)) aName of
                                None \<Rightarrow> \<lparr>profileName = aName, results = []\<rparr>
                              | Some l \<Rightarrow> l)\<rparr>,
           fst (expand d fs1 p)))
   \<and> (\<forall>p fs1. profile d fs aName TYPE_SYNC = (Some p, fs1) \<and> ptype p \<noteq> TYPE_SYNC \<longrightarrow>
        syncProfile d fs aName = (None, fs1))
   \<and> (\<forall>fs1. profile d fs aName TYPE_SYNC = (None, fs1) \<longrightarrow>
        syncProfile d fs aName = (None, fs1))"
  using syncProfile_sync syncProfile_other syncProfile_none
  unfolding newSyncLog_def by blast

lemma cp_parent:
  "createProfile parentDoc
   = Profile ''parent'' ''sync'' Map.empty Map.empty [reference ''svc'' ''service'' False] False"
  by (simp add: parentDoc_def profileDoc_def attribute_def keysOf_def fieldsOf_def reference_def)

lemma cp_svc:
  "createProfile svcDoc
   = Profile ''svc'' ''service'' [''endpoint'' \<mapsto> ''http://h''] Map.empty
       [reference ''st'' ''storage'' False] False"
  by (simp add: svcDoc_def profileDoc_def attribute_def keysOf_def fieldsOf_def reference_def)

lemma cp_st:
  "createProfile stDoc
   = Profile ''st'' ''storage'' [''path'' \<mapsto> ''/data''] Map.empty
       [reference ''svc'' ''service'' False] False"
  by (simp add: stDoc_def profileDoc_def attribute_def keysOf_def fieldsOf_def reference_def)

lemma load_fsCycle:
  "load d0 fsCycle ''svc'' ''service'' = (Some (createProfile svcDoc), fsCycle)"
  "load d0 fsCycle ''st'' ''storage'' = (Some (createProfile stDoc), fsCycle)"
  by (simp_all add: op_defs primitive_defs constant_defs fsCycle_def regular_def Let_def)

theorem syncProfile_cases_witness:
  "profile d0 fsTwo ''a'' TYPE_SYNC = (Some (createProfile (syncDoc ''a'' [])), fsTwo)
   \<and> ptype (createProfile (syncDoc ''a'' [])) = TYPE_SYNC
   \<and> syncProfile d0 fsTwo ''a''
       = (Some \<lparr>base = setLoaded (createProfile (syncDoc ''a'' [])) True,
                iLog = Some \<lparr>profileName = ''a'', results = []\<rparr>\<rparr>, fsTwo)
   \<and> profile d0 fsLogged ''a'' TYPE_SYNC = (Some (createProfile (syncDoc ''a'' [])), fsLogged)
   \<and> syncProfile d0 fsLogged ''a''
       = (Some \<lparr>base = setLoaded (createProfile (syncDoc ''a'' [])) True,
                iLog = Some \<lparr>profileName = ''a'',
                              results = [Element ''syncResults'' [(''majorcode'', ''0'')] []]\<rparr>\<rparr>,
          fsLogged)
   \<and> profile d0 fsLogged ''svc'' TYPE_SYNC = (Some (createProfile svcDoc), fsLogged)
   \<and> ptype (createProfile svcDoc) \<noteq> TYPE_SYNC
   \<and> syncProfile d0 fsLogged ''svc'' = (None, fsLogged)
   \<and> profile d0 fsTwo ''zz'' TYPE_SYNC = (None, fsTwo)
   \<and> syncProfile d0 fsTwo ''zz'' = (None, fsTwo)"
proof -
  have a: "profile d0 fsTwo ''a'' TYPE_SYNC = (Some (createProfile (syncDoc ''a'' [])), fsTwo)"
    by (simp add: profile_def TYPE_SYNC_def load_fsTwo)
  have t: "ptype (createProfile (syncDoc ''a'' [])) = TYPE_SYNC"
    by (simp add: TYPE_SYNC_def)
  have e: "expand d0 fs (createProfile (syncDoc ''a'' []))
           = (fs, setLoaded (createProfile (syncDoc ''a'' [])) True)" for fs
    by (simp add: expand_without_subProfiles)
  have la: "profile d0 fsLogged ''a'' TYPE_SYNC = (Some (createProfile (syncDoc ''a'' [])), fsLogged)"
    by (simp add: profile_def op_defs primitive_defs constant_defs fsLogged_def fsTwo_def
        regular_def Let_def)
  have ll: "loadLog d0 fsLogged ''a''
            = Some \<lparr>profileName = ''a'',
                    results = [Element ''syncResults'' [(''majorcode'', ''0'')] []]\<rparr>"
    by (simp add: loadLog_def primitive_defs constant_defs fsLogged_def regular_def Let_def
        SyncLog_fromXml_def logDoc_def attribute_def)
  have s: "profile d0 fsLogged ''svc'' TYPE_SYNC = (Some (createProfile svcDoc), fsLogged)"
    by (simp add: profile_def op_defs primitive_defs constant_defs fsLogged_def fsTwo_def
        regular_def Let_def)
  have st: "ptype (createProfile svcDoc) \<noteq> TYPE_SYNC"
    by (simp add: cp_svc TYPE_SYNC_def)
  have z: "profile d0 fsTwo ''zz'' TYPE_SYNC = (None, fsTwo)"
    by (simp add: profile_def op_defs primitive_defs constant_defs fsTwo_def Let_def)
  note c1 = syncProfile_cases[of d0 fsTwo "''a''"]
  note c2 = syncProfile_cases[of d0 fsLogged "''a''"]
  note c3 = syncProfile_cases[of d0 fsLogged "''svc''"]
  note c4 = syncProfile_cases[of d0 fsTwo "''zz''"]
  from c1 a t have r1: "syncProfile d0 fsTwo ''a''
       = (Some \<lparr>base = setLoaded (createProfile (syncDoc ''a'' [])) True,
                iLog = Some \<lparr>profileName = ''a'', results = []\<rparr>\<rparr>, fsTwo)"
    by (simp add: e loadLog_fsTwo newSyncLog_def)
  from c2 la t have r2: "syncProfile d0 fsLogged ''a''
       = (Some \<lparr>base = setLoaded (createProfile (syncDoc ''a'' [])) True,
                iLog = Some \<lparr>profileName = ''a'',
                              results = [Element ''syncResults'' [(''majorcode'', ''0'')] []]\<rparr>\<rparr>,
          fsLogged)"
    by (simp add: e ll)
  from c3 s st have r3: "syncProfile d0 fsLogged ''svc'' = (None, fsLogged)" by blast
  from c4 z have r4: "syncProfile d0 fsTwo ''zz'' = (None, fsTwo)" by blast
  from a t r1 la r2 s st r3 z r4 show ?thesis by blast
qed

subsection \<open>The expander\<close>

lemma ident_overlay [simp]: "ident (overlay ext new t) = ident t"
  by (simp add: ident_def overlay_def)

lemma overlayFirst_Cons_sel:
  "overlayFirst q f (p # cs) =
     (if ident p = q then Some (f p # cs)
      else (case overlayFirst q f (subProfiles p) of
              Some ss' \<Rightarrow> Some (setSubProfiles p ss' # cs)
            | None \<Rightarrow> map_option ((#) p) (overlayFirst q f cs)))"
  by (cases p) (auto simp: ident_def setSubProfiles_def split: option.splits)

lemma overlayFirst_None_iff: "overlayFirst q f ss = None \<longleftrightarrow> q \<notin> set (identsOf ss)"
proof (induction q f ss rule: overlayFirst.induct)
  case (1 q f)
  then show ?case by simp
next
  case (2 q f n t ks fl ss l cs)
  show ?case
  proof (cases "(n, t) = q")
    case True
    then show ?thesis by auto
  next
    case False
    with 2 show ?thesis by (cases "overlayFirst q f ss") auto
  qed
qed

lemma overlayFirst_twice:
  "overlayFirst q f ss = Some ss' \<Longrightarrow> \<forall>t. ident (f t) = ident t \<Longrightarrow>
   overlayFirst q g ss' = overlayFirst q (g \<circ> f) ss"
proof (induction q f ss arbitrary: ss' rule: overlayFirst.induct)
  case (1 q f)
  then show ?case by simp
next
  case (2 q f n t ks fl ss l cs)
  let ?P = "Profile n t ks fl ss l"
  note found = "2.prems"(1) and keeps = "2.prems"(2)
  show ?case
  proof (cases "(n, t) = q")
    case True
    with found have ss': "ss' = f ?P # cs" by simp
    have "ident ?P = q" using True by (simp add: ident_def)
    moreover have "ident (f ?P) = ident ?P" using keeps by blast
    ultimately have "ident (f ?P) = q" by simp
    then have "overlayFirst q g (f ?P # cs) = Some (g (f ?P) # cs)"
      by (simp only: overlayFirst_Cons_sel refl if_True)
    then show ?thesis using True unfolding ss' by simp
  next
    case False
    show ?thesis
    proof (cases "overlayFirst q f ss")
      case (Some sub')
      with False found have ss': "ss' = Profile n t ks fl sub' l # cs" by simp
      have "overlayFirst q (g \<circ> f) ss \<noteq> None"
        using Some overlayFirst_None_iff[of q f ss] overlayFirst_None_iff[of q "g \<circ> f" ss]
        by simp
      with "2.IH"(1)[OF False Some keeps] False Some show ?thesis
        unfolding ss' by (auto simp: comp_def)
    next
      case None
      with False found obtain cs' where cs': "overlayFirst q f cs = Some cs'"
        and ss': "ss' = ?P # cs'" by auto
      from None have n1: "overlayFirst q g ss = None" "overlayFirst q (g \<circ> f) ss = None"
        by (simp_all add: overlayFirst_None_iff)
      from "2.IH"(2)[OF False None cs' keeps] False n1 show ?thesis
        unfolding ss' by (simp add: comp_def)
    qed
  qed
qed

lemma absentSubProfiles_cover:
  "s \<in> set ss \<Longrightarrow>
   ident s \<in> set present \<union> set (identsOf (absentSubProfiles present ss))"
proof (induction present ss rule: absentSubProfiles.induct)
  case (1 present)
  then show ?case by simp
next
  case (2 present a ss)
  show ?case
  proof (cases "ident a \<in> set present")
    case True
    with 2 show ?thesis by auto
  next
    case False
    have idn: "set (map ident (nodes a)) \<subseteq> set (identsOf (a # absentSubProfiles (map ident (nodes a) @ present) ss))"
      by (cases a) (auto simp: identsOf_def)
    show ?thesis
    proof (cases "s = a")
      case True
      with False show ?thesis by (simp add: identsOf_Cons_sel)
    next
      case ne: False
      with 2 have "s \<in> set ss" by simp
      from 2(2)[OF False this] idn False show ?thesis
        by (auto simp: identsOf_Cons_sel)
    qed
  qed
qed

lemma absentSubProfiles_Nil:
  "(\<And>s. s \<in> set ss \<Longrightarrow> ident s \<in> set present) \<Longrightarrow> absentSubProfiles present ss = []"
  by (induction present ss rule: absentSubProfiles.induct) auto

lemma map_add_twice: "m ++ e ++ e = m ++ e"
  by (rule ext) (simp add: map_add_def split: option.splits)

lemma overlay_overlay: "overlay ext [] (overlay ext new t) = overlay ext new t"
  by (simp add: overlay_def map_add_twice)

lemma merge_idempotent: "merge (merge root ext) ext = merge root ext"
proof -
  let ?new = "absentSubProfiles (map ident (descendants root)) (subProfiles ext)"
  show ?thesis
  proof (cases "overlayFirst (ident ext) (overlay ext ?new) (subProfiles root)")
    case None
    then show ?thesis by (simp add: merge_def Let_def)
  next
    case (Some ss')
    then have m: "merge root ext = setSubProfiles root ss'"
      by (simp add: merge_def Let_def)
    have ids: "set (identsOf ss') = set (identsOf (subProfiles root)) \<union> set (identsOf ?new)"
      using overlayFirst_idents[OF Some] by simp
    have "absentSubProfiles (map ident (descendants (setSubProfiles root ss'))) (subProfiles ext) = []"
    proof (rule absentSubProfiles_Nil)
      fix s assume "s \<in> set (subProfiles ext)"
      from absentSubProfiles_cover[OF this, of "map ident (descendants root)"]
      show "ident s \<in> set (map ident (descendants (setSubProfiles root ss')))"
        using ids by (auto simp: descendants_def identsOf_def)
    qed
    moreover have "overlayFirst (ident ext) (overlay ext []) ss'
          = overlayFirst (ident ext) (overlay ext [] \<circ> overlay ext ?new) (subProfiles root)"
      by (rule overlayFirst_twice[OF Some]) simp
    moreover have "overlay ext [] \<circ> overlay ext ?new = overlay ext ?new"
      by (rule ext) (simp add: overlay_overlay)
    ultimately show ?thesis
      unfolding m using Some by (simp add: merge_def Let_def setSubProfiles_def)
  qed
qed

lemma pass1:
  "expand_pass d0 fsCycle (createProfile parentDoc) [[0]] = (fsCycle, afterFirstPass)"
  by (simp add: cp_parent expand_sub_def reference_def profile_def load_fsCycle cp_svc merge_def
      descendants_def ident_def overlay_def setSubProfiles_def setLoaded_def afterFirstPass_def
      Let_def)

lemma pass2:
  "expand_pass d0 fsCycle afterFirstPass [[0], [0, 0]] = (fsCycle, afterSecondPass)"
  by (simp add: afterFirstPass_def expand_sub_def reference_def profile_def load_fsCycle cp_st
      merge_def descendants_def ident_def overlay_def setSubProfiles_def setLoaded_def
      afterSecondPass_def Let_def)

lemma subs_fsCycle:
  "allSubProfiles (createProfile parentDoc) = [[0]]"
  "allSubProfiles afterFirstPass = [[0], [0, 0]]"
  "allSubProfiles afterSecondPass = [[0], [0, 0]]"
  by (simp_all add: cp_parent allSubProfiles_def afterFirstPass_def afterSecondPass_def
      reference_def)

lemma expand_loop_exit:
  "\<not> prevSubCount < subCount \<Longrightarrow> expand_loop d fs p subs prevSubCount subCount = (fs, p)"
  by (subst expand_loop.simps) simp

lemma expand_loop_step:
  "prevSubCount < subCount \<Longrightarrow> expand_pass d fs p subs = (fs1, p1) \<Longrightarrow>
   expand_loop d fs p subs prevSubCount subCount
   = expand_loop d fs1 p1 (allSubProfiles p1) subCount (length (allSubProfiles p1))"
  by (subst expand_loop.simps) simp

lemma expand_iterations_exit:
  "\<not> prevSubCount < subCount \<Longrightarrow> expand_iterations d fs p subs prevSubCount subCount = 0"
  by (subst expand_iterations.simps) simp

lemma expand_iterations_step:
  "prevSubCount < subCount \<Longrightarrow> expand_pass d fs p subs = (fs1, p1) \<Longrightarrow>
   expand_iterations d fs p subs prevSubCount subCount
   = Suc (expand_iterations d fs1 p1 (allSubProfiles p1) subCount (length (allSubProfiles p1)))"
  by (subst expand_iterations.simps) simp

lemma expand_fsCycle:
  "expand d0 fsCycle (createProfile parentDoc) = (fsCycle, setLoaded afterSecondPass True)"
proof -
  have "expand_loop d0 fsCycle (createProfile parentDoc) [[0]] 0 (length [[0::nat]])
        = (fsCycle, afterSecondPass)"
    by (simp add: expand_loop_step[OF _ pass1] expand_loop_step[OF _ pass2] subs_fsCycle
        expand_loop_exit)
  moreover have "\<not> isLoaded (createProfile parentDoc)" by (simp add: cp_parent)
  ultimately show ?thesis by (simp add: expand_def subs_fsCycle)
qed

lemma iterations_fsCycle:
  "expand_iterations d0 fsCycle (createProfile parentDoc) [[0]] 0 (Suc 0) = 2"
  by (simp add: expand_iterations_step[OF _ pass1] expand_iterations_step[OF _ pass2]
      subs_fsCycle expand_iterations_exit)

text \<open>
  C8. Expanding the result of an expansion changes nothing, neither the profile nor the
  files: the first run leaves the profile marked as loaded, and the expander returns at once
  on a loaded profile. Merging the same external profile a second time changes nothing.
\<close>

theorem expand_idempotent:
  "expand d (fst (expand d fs S)) (snd (expand d fs S)) = expand d fs S
   \<and> merge (merge root external) external = merge root external"
  using expand_twice[of d fs S "fst (expand d fs S)" "snd (expand d fs S)"] merge_idempotent
  by simp

theorem expand_idempotent_witness:
  "expand d0 fsCycle (createProfile parentDoc) = (fsCycle, setLoaded afterSecondPass True)
   \<and> expand d0 fsCycle (setLoaded afterSecondPass True) = (fsCycle, setLoaded afterSecondPass True)
   \<and> merge (createProfile parentDoc) (createProfile svcDoc)
       = Profile ''parent'' ''sync'' Map.empty Map.empty
           [Profile ''svc'' ''service'' [''endpoint'' \<mapsto> ''http://h''] Map.empty
              [reference ''st'' ''storage'' False] False] False
   \<and> merge (merge (createProfile parentDoc) (createProfile svcDoc)) (createProfile svcDoc)
       = Profile ''parent'' ''sync'' Map.empty Map.empty
           [Profile ''svc'' ''service'' [''endpoint'' \<mapsto> ''http://h''] Map.empty
              [reference ''st'' ''storage'' False] False] False"
proof -
  have m: "merge (createProfile parentDoc) (createProfile svcDoc)
       = Profile ''parent'' ''sync'' Map.empty Map.empty
           [Profile ''svc'' ''service'' [''endpoint'' \<mapsto> ''http://h''] Map.empty
              [reference ''st'' ''storage'' False] False] False"
    by (simp add: cp_parent cp_svc merge_def reference_def descendants_def ident_def
        overlay_def setSubProfiles_def Let_def)
  from expand_idempotent[of d0 fsCycle "createProfile parentDoc" "createProfile parentDoc"
      "createProfile svcDoc"]
  show ?thesis
    by (simp add: expand_fsCycle m)
qed


lemma expand_iterations_bound_aux:
  "subCount = length (allSubProfiles aProfile) \<Longrightarrow>
   expand_iterations d fs aProfile subs prevSubCount subCount
     \<le> (if subCount > prevSubCount then Suc (card (unresolved fs aProfile)) else 0)"
proof (induction d fs aProfile subs prevSubCount subCount rule: expand_iterations.induct)
  case (1 d fs aProfile subs prevSubCount subCount)
  show ?case
  proof (cases "subCount > prevSubCount")
    case False
    then show ?thesis by (simp add: expand_iterations.simps)
  next
    case True
    obtain fs1 p1 where pass: "expand_pass d fs aProfile subs = (fs1, p1)"
      by (cases "expand_pass d fs aProfile subs")
    let ?n1 = "length (allSubProfiles p1)"
    have it: "expand_iterations d fs aProfile subs prevSubCount subCount
              = Suc (expand_iterations d fs1 p1 (allSubProfiles p1) subCount ?n1)"
      using True pass by (subst expand_iterations.simps) simp
    have ih: "expand_iterations d fs1 p1 (allSubProfiles p1) subCount ?n1
              \<le> (if ?n1 > subCount then Suc (card (unresolved fs1 p1)) else 0)"
      using "1.IH"[OF True pass[symmetric] refl] by simp
    note u = expand_pass_unresolved[OF pass]
    show ?thesis
    proof (cases "?n1 > subCount")
      case False
      with ih it True show ?thesis by simp
    next
      case gt: True
      with "1.prems" have "length (identsBelow aProfile) < length (identsBelow p1)"
        by (simp add: length_allSubProfiles)
      from u(2)[OF this] ih gt it True show ?thesis by simp
    qed
  qed
qed

lemma expand_sub_skips_loaded:
  "node_at aProfile sub = Some s \<Longrightarrow> isLoaded s \<Longrightarrow> expand_sub d fs aProfile sub = (fs, aProfile)"
  by (simp add: expand_sub_def)

lemma expand_loop_last:
  assumes "prevSubCount < subCount" "expand_pass d fs aProfile subs = (fs1, aProfile1)"
    "\<not> subCount < length (allSubProfiles aProfile1)"
  shows "expand_loop d fs aProfile subs prevSubCount subCount = (fs1, aProfile1)"
proof -
  have "expand_loop d fs1 aProfile1 (allSubProfiles aProfile1) subCount
          (length (allSubProfiles aProfile1)) = (fs1, aProfile1)"
    using assms(3) by (subst expand_loop.simps) simp
  with assms(1,2) show ?thesis by (subst expand_loop.simps) simp
qed

text \<open>
  C9. The loop of the expander ends. Started as \<open>expand\<close> starts it, it runs its body at most
  once more than there are referenced profiles that the files mention and the tree does not
  hold yet. After each run of the body either \<open>allSubProfiles\<close> returns more entries than
  before or the loop returns what that run produced. A sub-profile that is marked as loaded
  is skipped: nothing is loaded or merged for it.
\<close>

theorem expand_loop_terminates:
  "expand_iterations d fs aProfile (allSubProfiles aProfile) 0 (length (allSubProfiles aProfile))
     \<le> Suc (card (unresolved fs aProfile))
   \<and> (\<forall>subs prevSubCount subCount fs1 aProfile1.
         prevSubCount < subCount \<and> expand_pass d fs aProfile subs = (fs1, aProfile1) \<longrightarrow>
           subCount < length (allSubProfiles aProfile1)
           \<or> expand_loop d fs aProfile subs prevSubCount subCount = (fs1, aProfile1))
   \<and> (\<forall>sub s. node_at aProfile sub = Some s \<and> isLoaded s \<longrightarrow>
         expand_sub d fs aProfile sub = (fs, aProfile))"
proof (intro conjI allI impI)
  show "expand_iterations d fs aProfile (allSubProfiles aProfile) 0 (length (allSubProfiles aProfile))
     \<le> Suc (card (unresolved fs aProfile))"
    using expand_iterations_bound_aux[of "length (allSubProfiles aProfile)" aProfile d fs
        "allSubProfiles aProfile" 0]
    by (simp split: if_splits)
next
  fix subs fs1 aProfile1 and prevSubCount subCount :: nat
  assume "prevSubCount < subCount \<and> expand_pass d fs aProfile subs = (fs1, aProfile1)"
  then show "subCount < length (allSubProfiles aProfile1)
           \<or> expand_loop d fs aProfile subs prevSubCount subCount = (fs1, aProfile1)"
    using expand_loop_last by blast
next
  fix sub s
  assume "node_at aProfile sub = Some s \<and> isLoaded s"
  then show "expand_sub d fs aProfile sub = (fs, aProfile)"
    using expand_sub_skips_loaded by blast
qed

theorem expand_loop_terminates_witness:
  "expand_pass d0 fsCycle (createProfile parentDoc) [[0]] = (fsCycle, afterFirstPass)
   \<and> 1 < length (allSubProfiles afterFirstPass)
   \<and> expand_pass d0 fsCycle afterFirstPass [[0], [0, 0]] = (fsCycle, afterSecondPass)
   \<and> expand_loop d0 fsCycle afterFirstPass [[0], [0, 0]] 1 2 = (fsCycle, afterSecondPass)
   \<and> node_at afterFirstPass [0] \<noteq> None
   \<and> expand_sub d0 fsCycle afterFirstPass [0] = (fsCycle, afterFirstPass)
   \<and> expand_iterations d0 fsCycle (createProfile parentDoc)
        (allSubProfiles (createProfile parentDoc)) 0
        (length (allSubProfiles (createProfile parentDoc))) = 2
   \<and> 2 \<le> Suc (card (unresolved fsCycle (createProfile parentDoc)))"
proof -
  note t1 = expand_loop_terminates[of d0 fsCycle "createProfile parentDoc"]
  note t2 = expand_loop_terminates[of d0 fsCycle afterFirstPass]
  have n: "node_at afterFirstPass [0]
           = Some (Profile ''svc'' ''service'' [''endpoint'' \<mapsto> ''http://h''] Map.empty
                    [reference ''st'' ''storage'' False] True)"
    by (simp add: afterFirstPass_def)
  from t2 n have skip: "expand_sub d0 fsCycle afterFirstPass [0] = (fsCycle, afterFirstPass)"
    by simp
  from t2 pass2 have "2 < length (allSubProfiles afterSecondPass)
       \<or> expand_loop d0 fsCycle afterFirstPass [[0], [0, 0]] 1 2 = (fsCycle, afterSecondPass)"
    by (metis one_less_numeral_iff semiring_norm(76))
  then have last: "expand_loop d0 fsCycle afterFirstPass [[0], [0, 0]] 1 2 = (fsCycle, afterSecondPass)"
    by (simp add: subs_fsCycle)
  from t1 have "expand_iterations d0 fsCycle (createProfile parentDoc)
        (allSubProfiles (createProfile parentDoc)) 0
        (length (allSubProfiles (createProfile parentDoc)))
        \<le> Suc (card (unresolved fsCycle (createProfile parentDoc)))" by blast
  then have bound: "2 \<le> Suc (card (unresolved fsCycle (createProfile parentDoc)))"
    by (simp add: subs_fsCycle iterations_fsCycle)
  show ?thesis
    using pass1 pass2 skip last bound n
    by (simp add: subs_fsCycle iterations_fsCycle)
qed


end
